theory Spec2Isabelle
  imports Main "HOL-Library.Word" "HOL-Library.AList" "HOL-Library.List_Lexorder" "HOL-Library.Char_ord"
begin

unbundle bit_operations_syntax

section \<open>XOR distance utilities (xor.ts)\<close>

text \<open>
  A hash is a byte array. \<open>toHash\<close> is SHA-256 of the id in the source; the hash
  function lives outside the routing code, so every definition below takes it as the
  parameter \<open>H\<close>.
\<close>

type_synonym bytes = "8 word list"

text \<open>\<open>xorBuffers\<close>: byte-wise XOR over the common prefix of both buffers.\<close>

fun xorBuffers :: "bytes \<Rightarrow> bytes \<Rightarrow> bytes" where
  "xorBuffers (a # as) (b # bs) = (a XOR b) # xorBuffers as bs"
| "xorBuffers _ _ = []"

definition distance :: "(string \<Rightarrow> bytes) \<Rightarrow> string \<Rightarrow> string \<Rightarrow> bytes" where
  "distance H idA idB = xorBuffers (H idA) (H idB)"

text \<open>
  The inner loop of \<open>leadingZeros\<close>: the mask \<open>msk\<close> starts at 0x80 and is shifted right
  once per round, for at most the given number of rounds.
\<close>

fun bitZeros :: "nat \<Rightarrow> 8 word \<Rightarrow> 8 word \<Rightarrow> nat" where
  "bitZeros 0 byte msk = 0"
| "bitZeros (Suc n) byte msk =
     (if byte AND msk \<noteq> 0 then 0 else Suc (bitZeros n byte (drop_bit 1 msk)))"

fun leadingZeros :: "bytes \<Rightarrow> nat" where
  "leadingZeros [] = 0"
| "leadingZeros (byte # rest) =
     (if byte = 0 then 8 + leadingZeros rest else bitZeros 8 byte 0x80)"

definition bucketIndex :: "(string \<Rightarrow> bytes) \<Rightarrow> string \<Rightarrow> string \<Rightarrow> nat" where
  "bucketIndex H myPeerId peerId = leadingZeros (distance H myPeerId peerId)"

section \<open>Finger table (fingertable.ts)\<close>

text \<open>
  A peer is its stable id and a \<open>send\<close> closure. The closures the wire creates differ
  only in the transport connection they deliver to, so \<open>send\<close> is that connection id.
\<close>

record peer =
  peerId :: string
  send :: string

text \<open>
  The two JavaScript \<open>Map\<close>s are association lists in insertion order:
  \<open>AList.update\<close> replaces the value of a present key in place and appends an absent
  one, as \<open>Map.set\<close> does; \<open>AList.delete\<close> is \<open>Map.delete\<close>.
\<close>

record fingerTable =
  selfId :: string
  buckets :: "(nat \<times> peer list) list"
  peerMap :: "(string \<times> peer) list"

definition K_BUCKET_SIZE :: nat where
  "K_BUCKET_SIZE = 20"

definition FingerTable :: "string \<Rightarrow> fingerTable" where
  "FingerTable self = \<lparr>selfId = self, buckets = [], peerMap = []\<rparr>"

text \<open>\<open>findIndex\<close> followed by \<open>splice(idx, 1)\<close>: drop the first peer with that id.\<close>

fun spliceFirst :: "string \<Rightarrow> peer list \<Rightarrow> peer list" where
  "spliceFirst pid [] = []"
| "spliceFirst pid (p # ps) = (if peerId p = pid then ps else p # spliceFirst pid ps)"

definition removePeer :: "(string \<Rightarrow> bytes) \<Rightarrow> fingerTable \<Rightarrow> string \<Rightarrow> fingerTable" where
  "removePeer H t pid =
     (if map_of (peerMap t) pid = None then t
      else
        let bucketIdx = bucketIndex H (selfId t) pid;
            bs = (case map_of (buckets t) bucketIdx of
                    None \<Rightarrow> buckets t
                  | Some bucket \<Rightarrow>
                      let bucket' = spliceFirst pid bucket
                      in if bucket' = [] then AList.delete bucketIdx (buckets t)
                         else AList.update bucketIdx bucket' (buckets t))
        in t\<lparr>buckets := bs, peerMap := AList.delete pid (peerMap t)\<rparr>)"

text \<open>\<open>addPeer\<close> returns the boolean of the source together with the new table.\<close>

definition addPeer :: "(string \<Rightarrow> bytes) \<Rightarrow> fingerTable \<Rightarrow> peer \<Rightarrow> bool \<times> fingerTable" where
  "addPeer H t p =
     (if peerId p = selfId t then (False, t)
      else
        let t1 = (if map_of (peerMap t) (peerId p) \<noteq> None then removePeer H t (peerId p) else t);
            bucketIdx = bucketIndex H (selfId t1) (peerId p);
            bs = (if map_of (buckets t1) bucketIdx = None
                  then AList.update bucketIdx [] (buckets t1) else buckets t1);
            bucket = (case map_of bs bucketIdx of None \<Rightarrow> [] | Some b \<Rightarrow> b)
        in if length bucket \<ge> K_BUCKET_SIZE then (False, t1\<lparr>buckets := bs\<rparr>)
           else (True, t1\<lparr>buckets := AList.update bucketIdx (bucket @ [p]) bs,
                         peerMap := AList.update (peerId p) p (peerMap t1)\<rparr>))"

definition getPeer :: "fingerTable \<Rightarrow> string \<Rightarrow> peer option" where
  "getPeer t pid = map_of (peerMap t) pid"

definition getPeerIds :: "fingerTable \<Rightarrow> string list" where
  "getPeerIds t = map fst (peerMap t)"

definition count :: "fingerTable \<Rightarrow> nat" where
  "count t = length (peerMap t)"

text \<open>
  Calls on one table that run one after the other, each to its end before the next
  starts.
\<close>

datatype ftCall = AddPeer peer | RemovePeer string

fun ftCalls :: "(string \<Rightarrow> bytes) \<Rightarrow> fingerTable \<Rightarrow> ftCall list \<Rightarrow> fingerTable" where
  "ftCalls H t [] = t"
| "ftCalls H t (AddPeer p # cs) = ftCalls H (snd (addPeer H t p)) cs"
| "ftCalls H t (RemovePeer pid # cs) = ftCalls H (removePeer H t pid) cs"

subsection \<open>Calls that overlap\<close>

text \<open>
  \<open>addPeer\<close> and \<open>removePeer\<close> are \<open>async\<close>, and the wire starts them from
  its message and disconnection handlers without waiting for the previous call. A call
  runs up to its \<open>await XOR.bucketIndex\<close> (\<open>addPeer\<close> of a registered id: up to its
  \<open>await removePeer\<close>, which stops at the same place), and what follows the
  \<open>await\<close> runs later, on the table as the calls started or resumed in between have
  left it. \<open>ftTask\<close> is what remains of a call that has been suspended.
\<close>

datatype ftTask = AddRemoving peer | AddIndexing peer | Removing string

datatype ftProgress = Returned bool | Waiting ftTask

text \<open>\<open>addPeer\<close> up to its first \<open>await\<close>: the tests of the own id and of \<open>peerMap.has\<close>.\<close>

definition addPeerStart :: "fingerTable \<Rightarrow> peer \<Rightarrow> ftProgress" where
  "addPeerStart t p =
     (if peerId p = selfId t then Returned False
      else if map_of (peerMap t) (peerId p) \<noteq> None then Waiting (AddRemoving p)
      else Waiting (AddIndexing p))"

text \<open>\<open>removePeer\<close> up to its \<open>await\<close>: it returns at once for an id not in \<open>peerMap\<close>.\<close>

definition removePeerStart :: "fingerTable \<Rightarrow> string \<Rightarrow> ftTask option" where
  "removePeerStart t pid = (if map_of (peerMap t) pid = None then None else Some (Removing pid))"

text \<open>\<open>removePeer\<close> after its \<open>await\<close>.\<close>

definition removePeerRest :: "(string \<Rightarrow> bytes) \<Rightarrow> fingerTable \<Rightarrow> string \<Rightarrow> fingerTable" where
  "removePeerRest H t pid =
     (let bucketIdx = bucketIndex H (selfId t) pid;
          bs = (case map_of (buckets t) bucketIdx of
                  None \<Rightarrow> buckets t
                | Some bucket \<Rightarrow>
                    let bucket' = spliceFirst pid bucket
                    in if bucket' = [] then AList.delete bucketIdx (buckets t)
                       else AList.update bucketIdx bucket' (buckets t))
      in t\<lparr>buckets := bs, peerMap := AList.delete pid (peerMap t)\<rparr>)"

text \<open>\<open>addPeer\<close> after \<open>await XOR.bucketIndex\<close>: the bucket is created, tested and extended.\<close>

definition addPeerRest :: "(string \<Rightarrow> bytes) \<Rightarrow> fingerTable \<Rightarrow> peer \<Rightarrow> bool \<times> fingerTable" where
  "addPeerRest H t p =
     (let bucketIdx = bucketIndex H (selfId t) (peerId p);
          bs = (if map_of (buckets t) bucketIdx = None
                then AList.update bucketIdx [] (buckets t) else buckets t);
          bucket = (case map_of bs bucketIdx of None \<Rightarrow> [] | Some b \<Rightarrow> b)
      in if length bucket \<ge> K_BUCKET_SIZE then (False, t\<lparr>buckets := bs\<rparr>)
         else (True, t\<lparr>buckets := AList.update bucketIdx (bucket @ [p]) bs,
                       peerMap := AList.update (peerId p) p (peerMap t)\<rparr>))"

text \<open>A suspended call resumes: the new table, and what remains of the call, if anything.\<close>

fun resume :: "(string \<Rightarrow> bytes) \<Rightarrow> fingerTable \<Rightarrow> ftTask \<Rightarrow> fingerTable \<times> ftTask option" where
  "resume H t (AddRemoving p) = (removePeerRest H t (peerId p), Some (AddIndexing p))"
| "resume H t (AddIndexing p) = (snd (addPeerRest H t p), None)"
| "resume H t (Removing pid) = (removePeerRest H t pid, None)"

text \<open>
  A history of the table: calls start, and suspended calls resume in any order
  (\<open>Continue i\<close> resumes the \<open>i\<close>-th of the suspended calls).
\<close>

datatype ftEvent = Start ftCall | Continue nat

fun ftStep :: "(string \<Rightarrow> bytes) \<Rightarrow> ftEvent \<Rightarrow> fingerTable \<times> ftTask list \<Rightarrow> fingerTable \<times> ftTask list" where
  "ftStep H (Start (AddPeer p)) (t, pending) =
     (case addPeerStart t p of
        Returned b \<Rightarrow> (t, pending)
      | Waiting task \<Rightarrow> (t, pending @ [task]))"
| "ftStep H (Start (RemovePeer pid)) (t, pending) =
     (case removePeerStart t pid of
        None \<Rightarrow> (t, pending)
      | Some task \<Rightarrow> (t, pending @ [task]))"
| "ftStep H (Continue i) (t, pending) =
     (if i < length pending
      then (case resume H t (pending ! i) of
              (t', None) \<Rightarrow> (t', take i pending @ drop (Suc i) pending)
            | (t', Some task) \<Rightarrow> (t', pending[i := task]))
      else (t, pending))"

definition ftRun :: "(string \<Rightarrow> bytes) \<Rightarrow> fingerTable \<Rightarrow> ftEvent list \<Rightarrow> fingerTable \<times> ftTask list" where
  "ftRun H t events = fold (ftStep H) events (t, [])"

subsection \<open>Invariant of the finger table\<close>

text \<open>
  \<open>bucketsHolding t k\<close> lists the indexes of the buckets in which a peer with id \<open>k\<close>
  occurs. \<open>ftInvariant\<close> is the invariant in the terms of the table's own accessors;
  \<open>ft_wf\<close> is the stronger form used in the proofs (it adds that both maps have
  unique keys, that ids are unique within a bucket and that the own id is never stored).
\<close>

definition bucketsHolding :: "fingerTable \<Rightarrow> string \<Rightarrow> nat list" where
  "bucketsHolding t k = map fst (filter (\<lambda>(i, b). k \<in> peerId ` set b) (buckets t))"

definition ftInvariant :: "(string \<Rightarrow> bytes) \<Rightarrow> fingerTable \<Rightarrow> bool" where
  "ftInvariant H t \<longleftrightarrow>
     (\<forall>k \<in> set (getPeerIds t). bucketsHolding t k = [bucketIndex H (selfId t) k]) \<and>
     (\<forall>(i, b) \<in> set (buckets t). \<forall>p \<in> set b. getPeer t (peerId p) = Some p) \<and>
     (\<forall>(i, b) \<in> set (buckets t). length b \<le> K_BUCKET_SIZE) \<and>
     (\<forall>(i, b) \<in> set (buckets t). b \<noteq> []) \<and>
     count t = length (concat (map snd (buckets t)))"


definition ft_wf :: "(string \<Rightarrow> bytes) \<Rightarrow> fingerTable \<Rightarrow> bool" where
  "ft_wf H t \<longleftrightarrow>
     distinct (map fst (buckets t)) \<and> distinct (map fst (peerMap t)) \<and>
     (\<forall>(i, b) \<in> set (buckets t).
        b \<noteq> [] \<and> length b \<le> K_BUCKET_SIZE \<and> distinct (map peerId b) \<and>
        (\<forall>p \<in> set b. map_of (peerMap t) (peerId p) = Some p \<and>
                      bucketIndex H (selfId t) (peerId p) = i)) \<and>
     (\<forall>(k, p) \<in> set (peerMap t).
        peerId p = k \<and> k \<noteq> selfId t \<and>
        (case map_of (buckets t) (bucketIndex H (selfId t) k) of
           None \<Rightarrow> False | Some b \<Rightarrow> p \<in> set b)) \<and>
     length (peerMap t) = sum_list (map (\<lambda>(i, b). length b) (buckets t))"


text \<open>
  A stand-in hash for evaluating the definitions on concrete ids: the bytes of the id
  itself. The theorems below hold for every hash function.
\<close>

definition demoHash :: "string \<Rightarrow> bytes" where
  "demoHash s = map (\<lambda>c. of_nat (of_char c)) s"



section \<open>Rate limiter (wire-transport.ts, createRateLimiter)\<close>

text \<open>Times are \<open>Date.now()\<close> readings in milliseconds.\<close>

record rateClient =
  requests :: "int list"
  lastCleanup :: int
  throttleCount :: nat

type_synonym rateClients = "(string \<times> rateClient) list"

definition maxRequests :: nat where
  "maxRequests = 1500"

definition windowMs :: int where
  "windowMs = 60000"

text \<open>
  \<open>clients.get(clientId) || {requests: [], lastCleanup: now, throttleCount: 0}\<close>,
  with the requests older than the window filtered out.
\<close>

definition currentClient :: "int \<Rightarrow> string \<Rightarrow> rateClients \<Rightarrow> rateClient" where
  "currentClient now clientId clients =
     (let client = (case map_of clients clientId of
                      Some c \<Rightarrow> c
                    | None \<Rightarrow> \<lparr>requests = [], lastCleanup = now, throttleCount = 0\<rparr>)
      in client\<lparr>requests := filter (\<lambda>time. now - time < windowMs) (requests client)\<rparr>)"

text \<open>
  \<open>getDelay\<close> returns the delay and the updated client map. \<open>Math.min(...requests)\<close>
  is only evaluated on a list of at least \<open>maxRequests\<close> elements.
\<close>

definition getDelay :: "int \<Rightarrow> string \<Rightarrow> rateClients \<Rightarrow> int \<times> rateClients" where
  "getDelay now clientId clients =
     (let client = currentClient now clientId clients
      in if length (requests client) \<ge> maxRequests
         then
           let delay = windowMs - (now - Min (set (requests client)))
           in (max 0 delay,
               AList.update clientId (client\<lparr>throttleCount := throttleCount client + 1\<rparr>) clients)
         else
           (0, AList.update clientId (client\<lparr>requests := requests client @ [now]\<rparr>) clients))"

definition shouldDisconnect :: "string \<Rightarrow> rateClients \<Rightarrow> bool" where
  "shouldDisconnect clientId clients =
     (case map_of clients clientId of Some client \<Rightarrow> throttleCount client \<ge> 10 | None \<Rightarrow> False)"

text \<open>
  The periodic sweep installed outside the test environment: every client's window is
  filtered, and the throttle counter is reset after ten windows.
\<close>

definition cleanup :: "int \<Rightarrow> rateClients \<Rightarrow> rateClients" where
  "cleanup now clients =
     map (\<lambda>(clientId, data).
            (clientId,
             data\<lparr>requests := filter (\<lambda>time. now - time < windowMs) (requests data),
                  throttleCount := (if now - lastCleanup data > windowMs * 10 then 0
                                    else throttleCount data)\<rparr>))
         clients"

text \<open>
  The rate-limiting step at the head of \<open>handleMessage\<close>: the message is handled at
  once, handled after a sleep of \<open>delay\<close> ms, or dropped because the client is to be
  disconnected.
\<close>

datatype rateVerdict = Proceed | Sleep int | Disconnecting

definition rateLimit :: "int \<Rightarrow> string \<Rightarrow> rateClients \<Rightarrow> rateVerdict \<times> rateClients" where
  "rateLimit now clientId clients =
     (let (delay, clients') = getDelay now clientId clients
      in if delay > 0
         then (if shouldDisconnect clientId clients' then (Disconnecting, clients')
               else (Sleep delay, clients'))
         else (Proceed, clients'))"

text \<open>A history of limiter activity: requests and sweeps, each at its time.\<close>

datatype rateEvent = Request int string | Sweep int

fun rateRun :: "rateClients \<Rightarrow> rateEvent list \<Rightarrow> rateClients" where
  "rateRun clients [] = clients"
| "rateRun clients (Request now clientId # es) = rateRun (snd (getDelay now clientId clients)) es"
| "rateRun clients (Sweep now # es) = rateRun (cleanup now clients) es"

text \<open>No client of the map has more than \<open>maxRequests\<close> recorded requests.\<close>

definition withinCap :: "rateClients \<Rightarrow> bool" where
  "withinCap clients \<longleftrightarrow> (\<forall>(clientId, data) \<in> set clients. length (requests data) \<le> maxRequests)"

section \<open>Outbound message queue (wire-transport.ts, createMessageQueue)\<close>

text \<open>
  \<open>process\<close> is an asynchronous loop: it sends the head of the queue and then awaits a
  10 ms timer before looking at the queue again. The state keeps the due time of that
  timer (\<open>wake\<close>) and a log of the calls of \<open>sendFn\<close> with their times (\<open>sent\<close>).
\<close>

record messageQueue =
  mqueue :: "string list"
  processing :: bool
  wake :: "int option"
  sent :: "(int \<times> string) list"

definition createMessageQueue :: messageQueue where
  "createMessageQueue = \<lparr>mqueue = [], processing = False, wake = None, sent = []\<rparr>"

text \<open>
  One round of the \<open>while\<close> loop, entered at time \<open>now\<close>: with a message queued it is
  shifted off and sent, and the loop sleeps for 10 ms; with none the loop ends.
\<close>

definition processLoop :: "int \<Rightarrow> messageQueue \<Rightarrow> messageQueue" where
  "processLoop now q =
     (case mqueue q of
        [] \<Rightarrow> q\<lparr>processing := False, wake := None\<rparr>
      | msg # rest \<Rightarrow> q\<lparr>mqueue := rest, sent := sent q @ [(now, msg)], wake := Some (now + 10)\<rparr>)"

definition process :: "int \<Rightarrow> messageQueue \<Rightarrow> messageQueue" where
  "process now q =
     (if processing q \<or> mqueue q = [] then q
      else processLoop now (q\<lparr>processing := True\<rparr>))"

text \<open>The decimal digits of a number, as a template literal prints it.\<close>

fun showNat :: "nat \<Rightarrow> string" where
  "showNat n =
     (if n < 10 then [''0123456789'' ! n]
      else showNat (n div 10) @ [''0123456789'' ! (n mod 10)])"

declare showNat.simps [simp del]

text \<open>
  \<open>enqueue\<close> returns the error of the source, if any, and the new state. The error
  text ends with the maximum length in parentheses.
\<close>

definition enqueue :: "nat \<Rightarrow> int \<Rightarrow> string \<Rightarrow> messageQueue \<Rightarrow> string option \<times> messageQueue" where
  "enqueue maxQueueLength now data q =
     (if length (mqueue q) \<ge> maxQueueLength
      then (Some (''Message queue exceeded maximum length ('' @ showNat maxQueueLength @ '')''), q)
      else (None, process now (q\<lparr>mqueue := mqueue q @ [data]\<rparr>)))"






text \<open>Consecutive sends are at least 10 ms apart.\<close>

fun paced :: "(int \<times> string) list \<Rightarrow> bool" where
  "paced ((t1, m1) # (t2, m2) # rest) = (t1 + 10 \<le> t2 \<and> paced ((t2, m2) # rest))"
| "paced _ = True"

definition queueInv :: "int \<Rightarrow> messageQueue \<Rightarrow> bool" where
  "queueInv tnow q \<longleftrightarrow>
     paced (sent q) \<and>
     (processing q \<longrightarrow> sent q \<noteq> [] \<and> wake q = Some (fst (last (sent q)) + 10)) \<and>
     (\<not> processing q \<longrightarrow> mqueue q = [] \<and> wake q = None \<and>
        (sent q = [] \<or> fst (last (sent q)) + 10 \<le> tnow))"


section \<open>Graph data (schemas.ts)\<close>

text \<open>
  A value is a scalar or a relation \<open>{"#": soul}\<close>. States are millisecond clock
  readings. A node carries its fields (\<open>props\<close>) and the metadata record \<open>_\<close> (which a malformed
  node may lack) with the state of each field. A metadata object that arrives without its
  state map \<open>>\<close> is \<open>bare\<close>: with \<open>#\<close> as its only key it has the shape of a
  relation. In a wire graph the entry of a soul may be \<open>null\<close>.
\<close>

datatype graphValue = VNull | VBool bool | VNum int | VStr string | VRel string

record nodeMeta =
  metaSoul :: string
  states :: "(string \<times> int) list"
  bare :: bool

record node =
  meta :: "nodeMeta option"
  props :: "(string \<times> graphValue) list"

type_synonym wireGraph = "(string \<times> node option) list"

text \<open>The lex of a query: the soul \<open>#\<close> and the optional field selector \<open>.\<close>.\<close>

datatype lexField = Exact string | Prefix string | Range string string

record lex =
  lexSoul :: string
  lexDot :: "lexField option"

record wireMessage =
  msgId :: "string option"
  ackOf :: "string option"
  helloPub :: "string option"
  getLex :: "lex option"
  putGraph :: "wireGraph option"
  err :: "string option"

definition emptyMessage :: wireMessage where
  "emptyMessage = \<lparr>msgId = None, ackOf = None, helloPub = None, getLex = None,
                    putGraph = None, err = None\<rparr>"

text \<open>A subscription: its field filter and its callback. Callbacks are identified by numbers.\<close>

record listener =
  dot :: "lexField option"
  lcb :: nat

text \<open>
  What the wire takes from outside its own code. \<open>toHash\<close> is SHA-256; \<open>parse\<close> and
  \<open>stringify\<close> are \<open>JSON.parse\<close> (\<open>None\<close> when it throws) and \<open>JSON.stringify\<close>;
  \<open>random n\<close> is the \<open>n\<close>-th id drawn from \<open>utils.text.random\<close>; \<open>encode\<close> is the
  string encoding of a value that breaks ties between equal states; \<open>advances\<close> says
  which fields of a node pass the validation of user-owned souls (signature verification
  and alias self-reference) and are advanced to the merge; \<open>checkTakes t\<close> is the time in
  ms that the public-key check started at time \<open>t\<close> takes to settle (it waits for the
  answers to its own GETs).
\<close>

record env =
  toHash :: "string \<Rightarrow> bytes"
  parse :: "string \<Rightarrow> wireMessage option"
  stringify :: "wireMessage \<Rightarrow> string"
  random :: "nat \<Rightarrow> string"
  encode :: "graphValue \<Rightarrow> string"
  advances :: "bool \<Rightarrow> string \<Rightarrow> node \<Rightarrow> string \<Rightarrow> bool"
  checkTakes :: "int \<Rightarrow> nat"

section \<open>Get, Store, Dup and HAM\<close>

text \<open>
  Modelled from the spec: \<open>utils.rel.is\<close> (utils.ts is not among the sources). A relation
  is the singleton mapping \<open>{"#": soul}\<close>; the result is its soul.
\<close>

fun rel_is :: "graphValue \<Rightarrow> string option" where
  "rel_is (VRel soul) = Some soul"
| "rel_is _ = None"

definition matchesField :: "lexField \<Rightarrow> string \<Rightarrow> bool" where
  "matchesField sel name =
     (case sel of
        Exact f \<Rightarrow> name = f
      | Prefix p \<Rightarrow> take (length p) name = p
      | Range lo hi \<Rightarrow> lo \<le> name \<and> name \<le> hi)"

text \<open>
  Modelled from the spec: \<open>Get\<close> (get.ts is not among the sources). It returns the
  matching subgraph, or nothing if the graph lacks the requested soul or field; with
  \<open>fast\<close> it returns the subgraph even when only part of the data is present. The
  state map of the result is restricted to the fields returned.
\<close>

definition selectFields :: "lexField option \<Rightarrow> node \<Rightarrow> node" where
  "selectFields sel n =
     (case sel of
        None \<Rightarrow> n
      | Some f \<Rightarrow>
          \<lparr>meta = map_option (\<lambda>m. m\<lparr>states := filter (\<lambda>(k, s). matchesField f k) (states m)\<rparr>) (meta n),
           props = filter (\<lambda>(k, v). matchesField f k) (props n)\<rparr>)"

definition Get :: "lex \<Rightarrow> (string \<times> node) list \<Rightarrow> bool \<Rightarrow> wireGraph option" where
  "Get lx g fast =
     (case map_of g (lexSoul lx) of
        None \<Rightarrow> None
      | Some n \<Rightarrow>
          let sub = selectFields (lexDot lx) n
          in if props sub = [] \<and> lexDot lx \<noteq> None \<and> \<not> fast then None
             else Some [(lexSoul lx, Some sub)])"

text \<open>
  Modelled from the spec: \<open>Store\<close> (store.ts and radisk.ts are not among the sources).
  The store holds every field written, with its state, per soul; \<open>get\<close> assembles the
  node of the lex from it and \<open>put\<close> writes each field of each node of a graph. Disk
  failures are not modelled: both calls succeed.
\<close>

definition Store_get :: "lex \<Rightarrow> (string \<times> node) list \<Rightarrow> wireGraph option" where
  "Store_get lx st = Get lx st False"

definition writeField :: "string \<Rightarrow> string \<Rightarrow> graphValue \<Rightarrow> int option \<Rightarrow>
    (string \<times> node) list \<Rightarrow> (string \<times> node) list" where
  "writeField soul key v state g =
     (let n = (case map_of g soul of
                 Some n \<Rightarrow> n
               | None \<Rightarrow> \<lparr>meta = Some \<lparr>metaSoul = soul, states = [], bare = False\<rparr>, props = []\<rparr>);
          m = (case meta n of Some m \<Rightarrow> m | None \<Rightarrow> \<lparr>metaSoul = soul, states = [], bare = False\<rparr>);
          m' = (case state of
                  Some s \<Rightarrow> m\<lparr>states := AList.update key s (states m), bare := False\<rparr>
                | None \<Rightarrow> m)
      in AList.update soul \<lparr>meta = Some m', props = AList.update key v (props n)\<rparr> g)"

definition writeNode :: "string \<Rightarrow> node \<Rightarrow> (string \<times> node) list \<Rightarrow> (string \<times> node) list" where
  "writeNode soul n g =
     fold (\<lambda>(key, v). writeField soul key v
                        (case meta n of Some m \<Rightarrow> map_of (states m) key | None \<Rightarrow> None))
          (props n) g"

definition Store_put :: "(string \<times> node) list \<Rightarrow> (string \<times> node) list \<Rightarrow> (string \<times> node) list" where
  "Store_put g st = fold (\<lambda>(soul, n). writeNode soul n) g st"

text \<open>
  Modelled from the spec: \<open>Dup\<close> (dup.ts is not among the sources), a mapping from
  message id to the time it was last touched. \<open>track\<close> records the id; \<open>check\<close> tells
  whether the id is present and refreshes it. The sweep of old entries is not modelled.
\<close>

definition dup_track :: "int \<Rightarrow> string \<Rightarrow> (string \<times> int) list \<Rightarrow> (string \<times> int) list" where
  "dup_track t ident d = AList.update ident t d"

definition dup_check :: "int \<Rightarrow> string \<Rightarrow> (string \<times> int) list \<Rightarrow> bool \<times> (string \<times> int) list" where
  "dup_check t ident d =
     (if map_of d ident \<noteq> None then (True, AList.update ident t d) else (False, d))"

text \<open>
  Modelled from the spec: \<open>HAM\<close>, the merge rule for one field (ham.ts is not among the
  sources). A field with no current state loses to every incoming state.
\<close>

datatype hamVerdict = Incoming | Historical | Unchanged | Current

definition HAM :: "(graphValue \<Rightarrow> string) \<Rightarrow> int \<Rightarrow> int option \<Rightarrow> graphValue \<Rightarrow>
    graphValue option \<Rightarrow> hamVerdict" where
  "HAM enc incomingState currentState incomingValue currentValue =
     (case currentState of
        None \<Rightarrow> Incoming
      | Some cur \<Rightarrow>
          if incomingState > cur then Incoming
          else if incomingState < cur then Historical
          else if currentValue = Some incomingValue then Unchanged
          else if (case currentValue of
                     None \<Rightarrow> True
                   | Some cv \<Rightarrow> enc cv < enc incomingValue) then Incoming
          else Current)"

text \<open>
  Modelled from the spec: \<open>HAM.mix\<close>. For each field of each node of the change that has
  metadata and passes validation: a state more than 24 h ahead of the machine time is
  dropped; a state ahead of the machine time is staged in \<open>defer\<close> and the smallest such
  delay is kept in \<open>wait\<close>; otherwise the merge rule decides, and an accepted field is
  written to the graph, staged in \<open>now\<close> and the callbacks listening to it are queued.
  Afterwards the graph is cut down to \<open>MAX_GRAPH_SIZE\<close> souls, those of smallest
  maximal state going first. The fields of the result are suffixed with \<open>_u\<close>.
\<close>

record update =
  now_u :: "(string \<times> node) list"
  defer_u :: "(string \<times> node) list"
  wait_u :: int
  listeners_u :: "nat list"

definition MAX_GRAPH_SIZE :: nat where
  "MAX_GRAPH_SIZE = 10000"

definition dayMs :: int where
  "dayMs = 86400000"

definition listening :: "(string \<times> listener list) list \<Rightarrow> string \<Rightarrow> string \<Rightarrow> nat list" where
  "listening ls soul key =
     (case map_of ls soul of
        None \<Rightarrow> []
      | Some subs \<Rightarrow>
          map lcb (filter (\<lambda>l. case dot l of None \<Rightarrow> True | Some f \<Rightarrow> matchesField f key) subs))"

definition mixField :: "env \<Rightarrow> int \<Rightarrow> (string \<times> listener list) list \<Rightarrow> string \<Rightarrow> nodeMeta \<Rightarrow>
    string \<times> graphValue \<Rightarrow> update \<times> (string \<times> node) list \<Rightarrow> update \<times> (string \<times> node) list" where
  "mixField E machine ls soul m kv acc =
     (let (key, v) = kv; (u, g) = acc
      in case map_of (states m) key of
           None \<Rightarrow> acc
         | Some state \<Rightarrow>
             if state > machine + dayMs then acc
             else if state > machine then
               (u\<lparr>defer_u := writeField soul key v (Some state) (defer_u u),
                  wait_u := (if wait_u u = 0 then state - machine
                             else min (wait_u u) (state - machine))\<rparr>, g)
             else
               let known = map_of g soul;
                   was = (case known of
                            Some n \<Rightarrow> (case meta n of Some km \<Rightarrow> map_of (states km) key | None \<Rightarrow> None)
                          | None \<Rightarrow> None);
                   cur = (case known of Some n \<Rightarrow> map_of (props n) key | None \<Rightarrow> None)
               in if HAM (encode E) state was v cur = Incoming
                  then (u\<lparr>now_u := writeField soul key v (Some state) (now_u u),
                          listeners_u := listeners_u u @ listening ls soul key\<rparr>,
                        writeField soul key v (Some state) g)
                  else acc)"

definition mixNode :: "env \<Rightarrow> int \<Rightarrow> bool \<Rightarrow> (string \<times> listener list) list \<Rightarrow>
    string \<times> node option \<Rightarrow> update \<times> (string \<times> node) list \<Rightarrow> update \<times> (string \<times> node) list" where
  "mixNode E machine secure ls entry acc =
     (case entry of
        (soul, None) \<Rightarrow> acc
      | (soul, Some n) \<Rightarrow>
          (case meta n of
             None \<Rightarrow> acc
           | Some m \<Rightarrow>
               fold (mixField E machine ls soul m)
                    (filter (\<lambda>(key, v). advances E secure soul n key) (props n)) acc))"

definition maxState :: "node \<Rightarrow> int" where
  "maxState n = (case meta n of
                   None \<Rightarrow> 0
                 | Some m \<Rightarrow> fold max (map snd (states m)) 0)"

definition evict :: "(string \<times> node) list \<Rightarrow> (string \<times> node) list" where
  "evict g =
     (if length g > MAX_GRAPH_SIZE
      then (let gone = map fst (take (length g - MAX_GRAPH_SIZE)
                                     (sort_key (\<lambda>(soul, n). maxState n) g))
            in filter (\<lambda>(soul, n). soul \<notin> set gone) g)
      else g)"

definition mix :: "env \<Rightarrow> int \<Rightarrow> wireGraph \<Rightarrow> (string \<times> node) list \<Rightarrow> bool \<Rightarrow>
    (string \<times> listener list) list \<Rightarrow> update \<times> (string \<times> node) list" where
  "mix E machine change g secure ls =
     (let (u, g') = fold (mixNode E machine secure ls) change
                      (\<lparr>now_u = [], defer_u = [], wait_u = 0, listeners_u = []\<rparr>, g)
      in (u, evict g'))"








section \<open>Wire transport (wire-transport.ts)\<close>

text \<open>
  The three ways \<open>sendFunction\<close> is set up: over a transport server, over client
  transports, or with no transport at all.
\<close>

datatype transportMode = ServerMode | ClientMode | LocalOnly

record options =
  mode :: transportMode
  secure :: bool
  maxQueueLength :: "nat option"

text \<open>\<open>options.maxQueueLength || 1000\<close>: the length given, and 1000 when none or 0 is given.\<close>

definition queueCap :: "options \<Rightarrow> nat" where
  "queueCap opt = (case maxQueueLength opt of Some n \<Rightarrow> if n = 0 then 1000 else n | None \<Rightarrow> 1000)"

text \<open>
  \<open>graph\<close>, \<open>listen\<close> and \<open>queue\<close> are plain objects (\<open>{}\<close>) that the wire reads
  as \<open>obj[key]\<close>. For a key the object does not hold itself such a read finds what
  every object inherits from \<open>Object.prototype\<close>; under each of these names that is a
  function or an object, so a test of the value succeeds.
\<close>

definition inheritedNames :: "string list" where
  "inheritedNames =
     [''constructor'', ''__defineGetter__'', ''__defineSetter__'', ''hasOwnProperty'',
      ''__lookupGetter__'', ''__lookupSetter__'', ''isPrototypeOf'', ''propertyIsEnumerable'',
      ''toString'', ''valueOf'', ''__proto__'', ''toLocaleString'']"

definition truthyAt :: "(string \<times> 'a) list \<Rightarrow> string \<Rightarrow> bool" where
  "truthyAt obj key \<longleftrightarrow> map_of obj key \<noteq> None \<or> key \<in> set inheritedNames"

text \<open>
  Timers set by the wire: the timeout of a GET, the retry of deferred fields, and the
  sleep of a rate-limited message.
\<close>

datatype timer =
    GetTimeout string lex nat
  | RePut wireGraph string
  | Resume string string

text \<open>
  The state owned by one wire. \<open>storePuts\<close> logs the argument of every \<open>store.put\<close>,
  \<open>calls\<close> logs every invocation of a callback with its argument, \<open>draws\<close> counts the
  random ids drawn. Every handler runs to completion; what the source awaits is either
  immediate here (store reads and writes) or an explicit timer.
\<close>

record wire =
  graph :: "(string \<times> node) list"
  queue :: "(string \<times> nat) list"
  listen :: "(string \<times> listener list) list"
  pendingReferences :: "string list"
  dup :: "(string \<times> int) list"
  store :: "(string \<times> node) list"
  storePuts :: "(string \<times> node) list list"
  fingerTable :: fingerTable
  rateLimiter :: rateClients
  messageQueue :: messageQueue
  timers :: "(int \<times> timer) list"
  calls :: "(nat \<times> wireMessage) list"
  draws :: nat

definition WireTransport :: "string \<Rightarrow> wire" where
  "WireTransport self =
     \<lparr>graph = [], queue = [], listen = [], pendingReferences = [], dup = [], store = [],
      storePuts = [], fingerTable = FingerTable self, rateLimiter = [],
      messageQueue = createMessageQueue, timers = [], calls = [], draws = 0\<rparr>"

text \<open>\<open>dup.track(utils.text.random(9))\<close>: draw an id and track it.\<close>

definition trackRandom :: "env \<Rightarrow> int \<Rightarrow> wire \<Rightarrow> string \<times> wire" where
  "trackRandom E t w =
     (let ident = random E (draws w)
      in (ident, w\<lparr>dup := dup_track t ident (dup w), draws := Suc (draws w)\<rparr>))"

definition invoke :: "nat \<Rightarrow> wireMessage \<Rightarrow> wire \<Rightarrow> wire" where
  "invoke cb msg w = w\<lparr>calls := calls w @ [(cb, msg)]\<rparr>"

text \<open>
  \<open>sendFunction\<close>: the \<open>enqueue\<close> of the outbound queue in server and client mode, a
  no-op without transport. The result is the error reported to the caller, if any.
\<close>

definition sendFunction :: "options \<Rightarrow> int \<Rightarrow> string \<Rightarrow> wire \<Rightarrow> string option \<times> wire" where
  "sendFunction opt t data w =
     (case mode opt of
        LocalOnly \<Rightarrow> (None, w)
      | _ \<Rightarrow>
          let (e, q) = enqueue (queueCap opt) t data (messageQueue w)
          in (e, w\<lparr>messageQueue := q\<rparr>))"

definition hasSoul :: "wire \<Rightarrow> string \<Rightarrow> bool" where
  "hasSoul w soul =
     (if truthyAt (graph w) soul then True
      else (case Store_get \<lparr>lexSoul = soul, lexDot = None\<rparr> (store w) of
              None \<Rightarrow> False
            | Some data \<Rightarrow> (case map_of data soul of Some (Some n) \<Rightarrow> True | _ \<Rightarrow> False)))"

subsection \<open>getWithCallback\<close>

text \<open>The inner function \<open>handleResponse\<close> of \<open>getWithCallback\<close>.\<close>

definition handleResponse :: "options \<Rightarrow> int \<Rightarrow> string \<Rightarrow> string \<Rightarrow> nat \<Rightarrow>
    wireGraph option \<Rightarrow> string option \<Rightarrow> wire \<Rightarrow> wire" where
  "handleResponse opt t request dupTrack cb putG errS w =
     (let (sendErr, w1) = sendFunction opt t request w
      in case sendErr of
           Some e \<Rightarrow>
             (invoke cb (emptyMessage\<lparr>err := Some e\<rparr>) w1)\<lparr>queue := AList.delete dupTrack (queue w1)\<rparr>
         | None \<Rightarrow>
             if putG \<noteq> None \<or> errS \<noteq> None
             then invoke cb (emptyMessage\<lparr>putGraph := putG, err := errS\<rparr>) w1
             else w1)"

text \<open>The null-valued subgraph of the timeout: \<open>{[id]: null}\<close>, or \<open>{[id]: {[field]: null}}\<close>.\<close>

definition nullGraph :: "lex \<Rightarrow> wireGraph" where
  "nullGraph lx =
     (case lexDot lx of
        Some (Exact f) \<Rightarrow> [(lexSoul lx, Some \<lparr>meta = None, props = [(f, VNull)]\<rparr>)]
      | _ \<Rightarrow> [(lexSoul lx, None)])"

text \<open>The closure given to \<open>setTimeout\<close> by \<open>getWithCallback\<close>.\<close>

definition getTimeout :: "string \<Rightarrow> lex \<Rightarrow> nat \<Rightarrow> wire \<Rightarrow> wire" where
  "getTimeout dupTrack lx cb w =
     (if truthyAt (queue w) dupTrack
      then (invoke cb (emptyMessage\<lparr>msgId := Some dupTrack, putGraph := Some (nullGraph lx)\<rparr>) w)
             \<lparr>queue := AList.delete dupTrack (queue w)\<rparr>
      else w)"

text \<open>The options of a request, and \<open>opts.wait || 100\<close>.\<close>

record wireOptions =
  waitMs :: "int option"
  fast :: bool

definition waitOf :: "wireOptions \<Rightarrow> int" where
  "waitOf opts = (case waitMs opts of Some ms \<Rightarrow> if ms = 0 then 100 else ms | None \<Rightarrow> 100)"

definition getWithCallback :: "env \<Rightarrow> options \<Rightarrow> int \<Rightarrow> lex \<Rightarrow> nat \<Rightarrow> wireOptions \<Rightarrow> wire \<Rightarrow> wire" where
  "getWithCallback E opt t lx cb opts w =
     (let ack = Get lx (graph w) (fast opts);
          (dupTrack, w1) = trackRandom E t w;
          request = stringify E (emptyMessage\<lparr>msgId := Some dupTrack, getLex := Some lx\<rparr>)
      in case ack of
           Some a \<Rightarrow> handleResponse opt t request dupTrack cb (Some a) None w1
         | None \<Rightarrow>
             (case Store_get lx (store w1) of
                Some a \<Rightarrow> handleResponse opt t request dupTrack cb (Some a) None w1
              | None \<Rightarrow>
                  let w2 = w1\<lparr>queue := AList.update dupTrack cb (queue w1),
                              timers := timers w1 @ [(t + waitOf opts, GetTimeout dupTrack lx cb)]\<rparr>
                  in handleResponse opt t request dupTrack cb None None w2))"

subsection \<open>handleGet and handlePut\<close>

definition handleGet :: "env \<Rightarrow> options \<Rightarrow> int \<Rightarrow> lex \<Rightarrow> string \<Rightarrow> wire \<Rightarrow> wire" where
  "handleGet E opt t lx ident w =
     (let ack = (case Get lx (graph w) False of
                   Some a \<Rightarrow> Some a
                 | None \<Rightarrow> Store_get lx (store w));
          (rid, w1) = trackRandom E t w
      in snd (sendFunction opt t
                (stringify E (emptyMessage\<lparr>msgId := Some rid, ackOf := Some ident, putGraph := ack\<rparr>))
                w1))"

text \<open>
  \<open>check\<close> asks, for every soul of the accepted update, for the stored \<open>pub\<close> field and
  waits for the replies; its verdict and the time it takes depend on what arrives later,
  so they are inputs of the handler: \<open>checkErr\<close> is \<open>None\<close> when the check passes and
  the error otherwise, and \<open>checkTakes\<close> of the environment is its duration. The merge
  is done at the time \<open>t\<close> of the call; the store write, the acknowledgement and the
  timer of the deferred fields come after \<open>await check\<close>, at time
  \<open>t + checkTakes t\<close>. When the merge accepts nothing there is no check, and the timer
  is set at \<open>t\<close>. The GET traffic of \<open>check\<close> itself is left out of the state.
\<close>

definition handlePut :: "env \<Rightarrow> options \<Rightarrow> string option \<Rightarrow> int \<Rightarrow> wireGraph \<Rightarrow> string \<Rightarrow> wire \<Rightarrow> wire" where
  "handlePut E opt checkErr t putG ident w =
     (let (u, g) = mix E t putG (graph w) (secure opt) (listen w);
          w1 = w\<lparr>graph := g\<rparr>;
          retry = (\<lambda>at x. if defer_u u \<noteq> []
                           then x\<lparr>timers := timers x @
                                  [(at + wait_u u,
                                    RePut (map (\<lambda>(soul, n). (soul, Some n)) (defer_u u)) ident)]\<rparr>
                           else x)
      in if now_u u = [] then retry t w1
         else if checkErr \<noteq> None then w1
         else
           let checked = t + int (checkTakes E t);
               w2 = w1\<lparr>store := Store_put (now_u u) (store w1),
                       storePuts := storePuts w1 @ [now_u u]\<rparr>;
               (rid, w3) = trackRandom E checked w2;
               w4 = snd (sendFunction opt checked
                          (stringify E (emptyMessage\<lparr>msgId := Some rid, ackOf := Some ident\<rparr>)) w3);
               w5 = fold (\<lambda>cb. invoke cb emptyMessage) (listeners_u u) w4
           in retry checked w5)"

subsection \<open>handleMessage\<close>

definition maxSize :: nat where
  "maxSize = 10 * 1024 * 1024"

definition validateMessage :: "string \<Rightarrow> bool" where
  "validateMessage data = (\<not> length data > maxSize)"

text \<open>
  The subscription test of both passes over an inbound PUT, with the current content of
  \<open>pendingReferences\<close>. The passes read graph, store and \<open>listen\<close> and change
  \<open>pendingReferences\<close> only.
\<close>

definition wanted :: "wire \<Rightarrow> string list \<Rightarrow> string \<Rightarrow> bool" where
  "wanted w refs soul \<longleftrightarrow>
     hasSoul w soul \<or> soul \<in> set refs \<or> truthyAt (listen w) soul"

definition addReference :: "string \<Rightarrow> string list \<Rightarrow> string list" where
  "addReference soul refs = (if soul \<in> set refs then refs else refs @ [soul])"

text \<open>
  \<open>Object.values(node)\<close>: the values of the fields and the value of \<open>_\<close>. A bare
  metadata object is the relation \<open>{"#": soul}\<close>; one with a state map is no relation
  and no scalar, and is left out (\<open>rel.is\<close> rejects it). The order of the values plays
  no role: they are added to a set.
\<close>

definition nodeValues :: "node \<Rightarrow> graphValue list" where
  "nodeValues n =
     (case meta n of
        Some m \<Rightarrow> if bare m \<and> states m = [] then [VRel (metaSoul m)] else []
      | None \<Rightarrow> []) @ map snd (props n)"

text \<open>
  First pass: the relation targets of every wanted node are added to
  \<open>pendingReferences\<close>, entry by entry.
\<close>

definition extractReferences :: "wire \<Rightarrow> string \<times> node option \<Rightarrow> string list \<Rightarrow> string list" where
  "extractReferences w entry refs =
     (case entry of
        (soul, Some n) \<Rightarrow>
          if wanted w refs soul
          then fold (\<lambda>v rs. case rel_is v of
                               Some soulId \<Rightarrow> if soulId \<noteq> [] then addReference soulId rs
                                              else rs
                             | None \<Rightarrow> rs)
                    (nodeValues n) refs
          else refs
      | (soul, None) \<Rightarrow> refs)"

text \<open>
  Second pass: the wanted souls are kept and leave \<open>pendingReferences\<close>. The
  assignment \<open>filteredPut[soul] = node\<close> adds no entry for the soul \<open>__proto__\<close>: it
  sets the prototype of \<open>filteredPut\<close> instead.
\<close>

definition filterSoul :: "wire \<Rightarrow> string \<times> node option \<Rightarrow> wireGraph \<times> string list \<Rightarrow>
    wireGraph \<times> string list" where
  "filterSoul w entry acc =
     (let (soul, n) = entry; (filteredPut, refs) = acc
      in if wanted w refs soul
         then (if soul = ''__proto__'' then filteredPut else AList.update soul n filteredPut,
               removeAll soul refs)
         else acc)"

text \<open>The HELLO, PUT and ACK branches of \<open>handleMessage\<close>.\<close>

definition helloBranch :: "env \<Rightarrow> string \<Rightarrow> wireMessage \<Rightarrow> wire \<Rightarrow> wire" where
  "helloBranch E clientId msg w =
     (case helloPub msg of
        Some pubKey \<Rightarrow>
          if pubKey \<noteq> [] \<and> clientId \<noteq> []
          then w\<lparr>fingerTable :=
                   snd (addPeer (toHash E) (fingerTable w) \<lparr>peerId = pubKey, send = clientId\<rparr>)\<rparr>
          else w
      | None \<Rightarrow> w)"

definition putBranch :: "env \<Rightarrow> options \<Rightarrow> string option \<Rightarrow> int \<Rightarrow> wireGraph \<Rightarrow> string \<Rightarrow> wire \<Rightarrow> wire" where
  "putBranch E opt checkErr t p ident w =
     (let refs = fold (extractReferences w) p (pendingReferences w);
          (filteredPut, refs') = fold (filterSoul w) p ([], refs);
          wb = w\<lparr>pendingReferences := refs'\<rparr>
      in if filteredPut \<noteq> []
         then handlePut E opt checkErr t filteredPut ident wb
         else wb)"

text \<open>
  The ACK branch looks up \<open>queue[msg["@"]]\<close> (the key \<open>undefined\<close> when the message
  has no \<open>@\<close>), deletes \<open>#\<close> and \<open>@\<close> from the message, calls the callback, and
  then deletes \<open>queue[msg["@"]]\<close>, which by now is the key \<open>undefined\<close>. For an
  inherited name that \<open>queue\<close> does not hold itself, what is called is a function of
  \<open>Object.prototype\<close>, which calls no callback of the wire; under \<open>__proto__\<close> there
  is an object, the call throws, and the handler ends in its \<open>catch\<close>.
\<close>

definition ackBranch :: "wireMessage \<Rightarrow> wire \<Rightarrow> wire" where
  "ackBranch msg w =
     (let key = (case ackOf msg of Some a \<Rightarrow> a | None \<Rightarrow> ''undefined'')
      in case map_of (queue w) key of
           Some cb \<Rightarrow>
             (invoke cb (msg\<lparr>msgId := None, ackOf := None\<rparr>) w)
               \<lparr>queue := AList.delete ''undefined'' (queue w)\<rparr>
         | None \<Rightarrow>
             if key \<in> set inheritedNames \<and> key \<noteq> ''__proto__''
             then w\<lparr>queue := AList.delete ''undefined'' (queue w)\<rparr>
             else w)"

text \<open>
  The part of \<open>handleMessage\<close> after the rate limiter: parse, deduplicate, then the
  HELLO, GET, PUT and ACK handling.
\<close>

definition handleParsed :: "env \<Rightarrow> options \<Rightarrow> string option \<Rightarrow> int \<Rightarrow> string \<Rightarrow> string \<Rightarrow> wire \<Rightarrow> wire" where
  "handleParsed E opt checkErr t data clientId w =
     (case parse E data of
        None \<Rightarrow> w
      | Some msg \<Rightarrow>
          (case msgId msg of
             None \<Rightarrow> w
           | Some ident \<Rightarrow>
               if ident = [] then w
               else
                 let (seen, d) = dup_check t ident (dup w)
                 in if seen then w\<lparr>dup := d\<rparr>
                    else
                      let w1 = w\<lparr>dup := dup_track t ident d\<rparr>;
                          w2 = helloBranch E clientId msg w1;
                          w3 = (case getLex msg of
                                  Some lx \<Rightarrow> handleGet E opt t lx ident w2
                                | None \<Rightarrow> w2);
                          w4 = (case putGraph msg of
                                  Some p \<Rightarrow> putBranch E opt checkErr t p ident w3
                                | None \<Rightarrow> w3)
                      in ackBranch msg w4))"

definition handleMessage :: "env \<Rightarrow> options \<Rightarrow> string option \<Rightarrow> int \<Rightarrow> string \<Rightarrow> string \<Rightarrow> wire \<Rightarrow> wire" where
  "handleMessage E opt checkErr t data clientId w =
     (if \<not> validateMessage data then w
      else
        let (verdict, rl) = rateLimit t clientId (rateLimiter w);
            w1 = w\<lparr>rateLimiter := rl\<rparr>
        in case verdict of
             Disconnecting \<Rightarrow> w1
           | Sleep delay \<Rightarrow> w1\<lparr>timers := timers w1 @ [(t + delay, Resume data clientId)]\<rparr>
           | Proceed \<Rightarrow> handleParsed E opt checkErr t data clientId w1)"

text \<open>\<open>server.onDisconnection\<close>: the handler is given the id of the connection.\<close>

definition onDisconnection :: "env \<Rightarrow> string \<Rightarrow> wire \<Rightarrow> wire" where
  "onDisconnection E connId w = w\<lparr>fingerTable := removePeer (toHash E) (fingerTable w) connId\<rparr>"

subsection \<open>Timers\<close>

text \<open>A timer of the list fires at time \<open>t\<close> if it is due; it is removed and its closure runs.\<close>

definition runTimer :: "env \<Rightarrow> options \<Rightarrow> string option \<Rightarrow> int \<Rightarrow> timer \<Rightarrow> wire \<Rightarrow> wire" where
  "runTimer E opt checkErr t tm w =
     (case tm of
        GetTimeout dupTrack lx cb \<Rightarrow> getTimeout dupTrack lx cb w
      | RePut p ident \<Rightarrow> handlePut E opt checkErr t p ident w
      | Resume data clientId \<Rightarrow> handleParsed E opt checkErr t data clientId w)"

definition fireTimer :: "env \<Rightarrow> options \<Rightarrow> string option \<Rightarrow> int \<Rightarrow> nat \<Rightarrow> wire \<Rightarrow> wire" where
  "fireTimer E opt checkErr t i w =
     (if i < length (timers w) \<and> fst (timers w ! i) \<le> t
      then runTimer E opt checkErr t (snd (timers w ! i))
             (w\<lparr>timers := take i (timers w) @ drop (Suc i) (timers w)\<rparr>)
      else w)"

subsection \<open>Public API\<close>

text \<open>
  \<open>get\<close>: a numeric field has already been turned into a string in a \<open>lex\<close>; the
  soul, unless empty, is recorded in \<open>pendingReferences\<close>.
\<close>

definition api_get :: "env \<Rightarrow> options \<Rightarrow> int \<Rightarrow> lex \<Rightarrow> nat \<Rightarrow> wireOptions \<Rightarrow> wire \<Rightarrow> wire" where
  "api_get E opt t lx cb opts w =
     getWithCallback E opt t lx cb opts
       (if lexSoul lx \<noteq> []
        then w\<lparr>pendingReferences := addReference (lexSoul lx) (pendingReferences w)\<rparr>
        else w)"

text \<open>
  Whether \<open>sendFunction\<close> accepts a message in a given state: always without
  transport, otherwise while the outbound queue is below its maximum length.
\<close>

definition sendOk :: "options \<Rightarrow> wire \<Rightarrow> bool" where
  "sendOk opt w \<longleftrightarrow> mode opt = LocalOnly \<or> length (mqueue (messageQueue w)) < queueCap opt"


section \<open>Concrete inputs\<close>

text \<open>
  An environment, options and messages for evaluating the handlers: the frame
  \<open>hello\<close> is a HELLO of peer \<open>peerA\<close>, the frame \<open>put\<close> a PUT of soul \<open>s\<close> with
  field \<open>a\<close> at state 1 and field \<open>b\<close> at state 150, the frame \<open>put2\<close> a PUT of
  that node and of a node of soul \<open>x\<close>.
\<close>

definition demoNode :: node where
  "demoNode = \<lparr>meta = Some \<lparr>metaSoul = ''s'', states = [(''a'', 1), (''b'', 150)], bare = False\<rparr>,
               props = [(''a'', VStr ''x''), (''b'', VStr ''y'')]\<rparr>"

definition otherNode :: node where
  "otherNode = \<lparr>meta = Some \<lparr>metaSoul = ''x'', states = [(''a'', 1)], bare = False\<rparr>,
                props = [(''a'', VStr ''z'')]\<rparr>"

definition demoParse :: "string \<Rightarrow> wireMessage option" where
  "demoParse data =
     (if data = ''hello'' then Some (emptyMessage\<lparr>msgId := Some ''m1'', helloPub := Some ''peerA''\<rparr>)
      else if data = ''put''
      then Some (emptyMessage\<lparr>msgId := Some ''m2'',
                   putGraph := Some [(''s'', Some demoNode)]\<rparr>)
      else if data = ''put2''
      then Some (emptyMessage\<lparr>msgId := Some ''m3'',
                   putGraph := Some [(''s'', Some demoNode), (''x'', Some otherNode)]\<rparr>)
      else None)"

definition demoEnv :: env where
  "demoEnv = \<lparr>toHash = demoHash, parse = demoParse,
              stringify = (\<lambda>m. case msgId m of Some i \<Rightarrow> i | None \<Rightarrow> ''''),
              random = (\<lambda>n. replicate (Suc n) CHR ''r''),
              encode = (\<lambda>v. case v of VStr s \<Rightarrow> s | _ \<Rightarrow> ''''),
              advances = (\<lambda>sec soul n key. True),
              checkTakes = (\<lambda>t. 100)\<rparr>"

definition serverOpts :: options where
  "serverOpts = \<lparr>mode = ServerMode, secure = False, maxQueueLength = Some 1\<rparr>"

definition localOpts :: options where
  "localOpts = \<lparr>mode = LocalOnly, secure = False, maxQueueLength = None\<rparr>"

definition noOpts :: wireOptions where
  "noOpts = \<lparr>waitMs = None, fast = False\<rparr>"

definition waitOpts :: wireOptions where
  "waitOpts = \<lparr>waitMs = Some 250, fast = False\<rparr>"

definition demoGets :: wire where
  "demoGets =
     api_get demoEnv serverOpts 1 \<lparr>lexSoul = ''b'', lexDot = None\<rparr> 2 noOpts
       (api_get demoEnv serverOpts 0 \<lparr>lexSoul = ''a'', lexDot = None\<rparr> 1 noOpts
          (WireTransport ''self''))"


text \<open>
  A PUT of a node whose soul is a name every object inherits and which holds a relation to
  soul \<open>t\<close>, and of a node of soul \<open>t\<close>.
\<close>

definition inheritedPut :: wireGraph where
  "inheritedPut =
     [(''constructor'', Some \<lparr>meta = Some \<lparr>metaSoul = ''constructor'', states = [(''x'', 1)], bare = False\<rparr>,
                               props = [(''x'', VRel ''t'')]\<rparr>),
      (''t'', Some \<lparr>meta = Some \<lparr>metaSoul = ''t'', states = [(''a'', 1)], bare = False\<rparr>,
                     props = [(''a'', VStr ''z'')]\<rparr>)]"

section \<open>Finger table: proofs\<close>

lemma ball_alist:
  "distinct (map fst xs) \<Longrightarrow>
   (\<forall>(i, b) \<in> set xs. P i b) = (\<forall>i b. map_of xs i = Some b \<longrightarrow> P i b)"
  by (auto simp: map_of_eq_Some_iff)

lemma case_holds_iff:
  "(case m of None \<Rightarrow> False | Some b \<Rightarrow> Q b) = (\<exists>b. m = Some b \<and> Q b)"
  by (cases m) auto

lemma ft_wf_alt:
  "ft_wf H t \<longleftrightarrow>
     distinct (map fst (buckets t)) \<and> distinct (map fst (peerMap t)) \<and>
     (\<forall>i b. map_of (buckets t) i = Some b \<longrightarrow>
        b \<noteq> [] \<and> length b \<le> K_BUCKET_SIZE \<and> distinct (map peerId b) \<and>
        (\<forall>p \<in> set b. map_of (peerMap t) (peerId p) = Some p \<and>
                      bucketIndex H (selfId t) (peerId p) = i)) \<and>
     (\<forall>k p. map_of (peerMap t) k = Some p \<longrightarrow>
        peerId p = k \<and> k \<noteq> selfId t \<and>
        (\<exists>b. map_of (buckets t) (bucketIndex H (selfId t) k) = Some b \<and> p \<in> set b)) \<and>
     length (peerMap t) = sum_list (map (\<lambda>(i, b). length b) (buckets t))"
proof (cases "distinct (map fst (buckets t)) \<and> distinct (map fst (peerMap t))")
  case True
  then show ?thesis
    unfolding ft_wf_def by (simp add: ball_alist case_holds_iff)
next
  case False
  then show ?thesis unfolding ft_wf_def by blast
qed

lemma ft_wfI:
  assumes "distinct (map fst (buckets t))" and "distinct (map fst (peerMap t))"
    and "\<And>i b. map_of (buckets t) i = Some b \<Longrightarrow>
        b \<noteq> [] \<and> length b \<le> K_BUCKET_SIZE \<and> distinct (map peerId b) \<and>
        (\<forall>p \<in> set b. map_of (peerMap t) (peerId p) = Some p \<and>
                      bucketIndex H (selfId t) (peerId p) = i)"
    and "\<And>k p. map_of (peerMap t) k = Some p \<Longrightarrow>
        peerId p = k \<and> k \<noteq> selfId t \<and>
        (\<exists>b. map_of (buckets t) (bucketIndex H (selfId t) k) = Some b \<and> p \<in> set b)"
    and "length (peerMap t) = sum_list (map (\<lambda>(i, b). length b) (buckets t))"
  shows "ft_wf H t"
  unfolding ft_wf_alt using assms by blast

lemma spliceFirst_filter:
  "distinct (map peerId b) \<Longrightarrow> spliceFirst k b = filter (\<lambda>p. peerId p \<noteq> k) b"
  by (induction b) (auto simp: image_iff intro!: filter_True[symmetric])

lemma length_spliceFirst:
  "k \<in> peerId ` set b \<Longrightarrow> Suc (length (spliceFirst k b)) = length b"
  by (induction b) auto

lemma sum_update_present:
  "distinct (map fst xs) \<Longrightarrow> map_of xs k = Some v \<Longrightarrow>
   sum_list (map (\<lambda>(i, b). length b) (AList.update k w xs)) + length v
     = sum_list (map (\<lambda>(i, b). length b) xs) + length w"
  by (induction xs) (auto simp: AList.update_conv' split: if_splits)

lemma sum_update_absent:
  "map_of xs k = None \<Longrightarrow>
   sum_list (map (\<lambda>(i, b). length b) (AList.update k w xs))
     = sum_list (map (\<lambda>(i, b). length b) xs) + length w"
  by (induction xs) (auto split: if_splits)

lemma sum_delete_present:
  "distinct (map fst xs) \<Longrightarrow> map_of xs k = Some v \<Longrightarrow>
   sum_list (map (\<lambda>(i, b). length b) (AList.delete k xs)) + length v
     = sum_list (map (\<lambda>(i, b). length b) xs)"
  by (induction xs) (auto split: if_splits)

lemma length_delete_present:
  "distinct (map fst xs) \<Longrightarrow> map_of xs k = Some v \<Longrightarrow>
   Suc (length (AList.delete k xs)) = length xs"
  by (induction xs) (auto split: if_splits)

lemma length_update_absent:
  "map_of xs k = None \<Longrightarrow> length (AList.update k w xs) = Suc (length xs)"
  by (induction xs) (auto split: if_splits)

lemma set_spliceFirst:
  "distinct (map peerId b) \<Longrightarrow> set (spliceFirst k b) = {p \<in> set b. peerId p \<noteq> k}"
  by (simp add: spliceFirst_filter)

lemma distinct_spliceFirst:
  "distinct (map peerId b) \<Longrightarrow> distinct (map peerId (spliceFirst k b))"
  by (simp add: spliceFirst_filter distinct_map_filter)

lemma length_spliceFirst_le: "length (spliceFirst k b) \<le> length b"
  by (induction b) auto

lemma removePeer_absent: "map_of (peerMap t) k = None \<Longrightarrow> removePeer H t k = t"
  by (simp add: removePeer_def)

lemma removePeer_selfId [simp]: "selfId (removePeer H t k) = selfId t"
  by (simp add: removePeer_def Let_def)

lemma removePeer_wf:
  assumes wf: "ft_wf H t"
  shows "ft_wf H (removePeer H t k)"
proof (cases "map_of (peerMap t) k")
  case None
  then show ?thesis using wf by (simp add: removePeer_absent)
next
  case (Some p0)
  let ?idx = "bucketIndex H (selfId t) k"
  from wf have dB: "distinct (map fst (buckets t))" and dM: "distinct (map fst (peerMap t))"
    and B: "\<And>i b. map_of (buckets t) i = Some b \<Longrightarrow>
          b \<noteq> [] \<and> length b \<le> K_BUCKET_SIZE \<and> distinct (map peerId b) \<and>
          (\<forall>p \<in> set b. map_of (peerMap t) (peerId p) = Some p \<and>
                      bucketIndex H (selfId t) (peerId p) = i)"
    and M: "\<And>k p. map_of (peerMap t) k = Some p \<Longrightarrow>
          peerId p = k \<and> k \<noteq> selfId t \<and>
          (\<exists>b. map_of (buckets t) (bucketIndex H (selfId t) k) = Some b \<and> p \<in> set b)"
    and C: "length (peerMap t) = sum_list (map (\<lambda>(i, b). length b) (buckets t))"
    unfolding ft_wf_alt by blast+
  from M[OF Some] obtain b where p0: "peerId p0 = k"
    and b: "map_of (buckets t) ?idx = Some b" and p0b: "p0 \<in> set b" by blast
  from B[OF b] have db: "distinct (map peerId b)" and bK: "length b \<le> K_BUCKET_SIZE" by auto
  let ?b' = "spliceFirst k b"
  have sb': "set ?b' = {p \<in> set b. peerId p \<noteq> k}" by (rule set_spliceFirst[OF db])
  have lb': "Suc (length ?b') = length b"
    using p0 p0b by (intro length_spliceFirst) force
  let ?bs = "if ?b' = [] then AList.delete ?idx (buckets t) else AList.update ?idx ?b' (buckets t)"
  have R: "removePeer H t k = t\<lparr>buckets := ?bs, peerMap := AList.delete k (peerMap t)\<rparr>"
    using Some b by (simp add: removePeer_def Let_def)
  have mB: "map_of ?bs = (if ?b' = [] then (map_of (buckets t))(?idx := None)
                          else (map_of (buckets t))(?idx \<mapsto> ?b'))"
    by (simp add: AList.update_conv' AList.delete_conv')
  have mM: "map_of (AList.delete k (peerMap t)) = (map_of (peerMap t))(k := None)"
    by (rule AList.delete_conv')
  have d1: "distinct (map fst ?bs)"
    using dB by (simp add: AList.distinct_update AList.distinct_delete)
  have d2: "distinct (map fst (AList.delete k (peerMap t)))"
    using dM by (simp add: AList.distinct_delete)
  have c1: "sum_list (map (\<lambda>(i, b). length b) ?bs) + length b
            = sum_list (map (\<lambda>(i, b). length b) (buckets t)) + length ?b'"
    using sum_update_present[OF dB b, of ?b'] sum_delete_present[OF dB b] by auto
  have c2: "Suc (length (AList.delete k (peerMap t))) = length (peerMap t)"
    by (rule length_delete_present[OF dM Some])
  have cnt: "length (AList.delete k (peerMap t)) = sum_list (map (\<lambda>(i, b). length b) ?bs)"
    using c1 c2 lb' C by linarith
  have B': "\<And>i c. map_of ?bs i = Some c \<Longrightarrow>
          c \<noteq> [] \<and> length c \<le> K_BUCKET_SIZE \<and> distinct (map peerId c) \<and>
          (\<forall>p \<in> set c. map_of (AList.delete k (peerMap t)) (peerId p) = Some p \<and>
                      bucketIndex H (selfId t) (peerId p) = i)"
  proof -
    fix i c assume ic: "map_of ?bs i = Some c"
    show "c \<noteq> [] \<and> length c \<le> K_BUCKET_SIZE \<and> distinct (map peerId c) \<and>
          (\<forall>p \<in> set c. map_of (AList.delete k (peerMap t)) (peerId p) = Some p \<and>
                      bucketIndex H (selfId t) (peerId p) = i)"
    proof (cases "i = ?idx")
      case True
      with ic have c: "c = ?b'" and ne: "?b' \<noteq> []" unfolding mB by (auto split: if_splits)
      show ?thesis unfolding c mM using ne B[OF b] sb' lb' bK distinct_spliceFirst[OF db, of k] True
        by auto
    next
      case False
      with ic have c: "map_of (buckets t) i = Some c" unfolding mB by (auto split: if_splits)
      have "\<forall>p \<in> set c. peerId p \<noteq> k" using B[OF c] False by auto
      then show ?thesis unfolding mM using B[OF c] by auto
    qed
  qed
  have M': "\<And>k' p. map_of (AList.delete k (peerMap t)) k' = Some p \<Longrightarrow>
          peerId p = k' \<and> k' \<noteq> selfId t \<and>
          (\<exists>c. map_of ?bs (bucketIndex H (selfId t) k') = Some c \<and> p \<in> set c)"
  proof -
    fix k' p assume kp: "map_of (AList.delete k (peerMap t)) k' = Some p"
    then have ne: "k' \<noteq> k" and kp0: "map_of (peerMap t) k' = Some p"
      unfolding mM by (auto split: if_splits)
    from M[OF kp0] obtain c where pk: "peerId p = k'" "k' \<noteq> selfId t"
      and c: "map_of (buckets t) (bucketIndex H (selfId t) k') = Some c" and pc: "p \<in> set c"
      by blast
    show "peerId p = k' \<and> k' \<noteq> selfId t \<and>
          (\<exists>c. map_of ?bs (bucketIndex H (selfId t) k') = Some c \<and> p \<in> set c)"
    proof (cases "bucketIndex H (selfId t) k' = ?idx")
      case True
      with c b have cb: "c = b" by simp
      then have "p \<in> set ?b'" using pc pk ne sb' by auto
      then show ?thesis using pk True unfolding mB by auto
    next
      case False
      then show ?thesis using pk c pc unfolding mB by auto
    qed
  qed
  show ?thesis unfolding R
  proof (rule ft_wfI, goal_cases)
    case 1 show ?case using d1 by simp
  next
    case 2 show ?case using d2 by simp
  next
    case (3 i c) then show ?case using B'[of i c] by simp
  next
    case (4 k' q) then show ?case using M'[of k' q] by simp
  next
    case 5 show ?case using cnt by simp
  qed
qed


lemma removePeer_gone: "map_of (peerMap (removePeer H t k)) k = None"
  by (simp add: removePeer_def Let_def AList.delete_conv')

lemma addPeer_wf:
  assumes wf: "ft_wf H t"
  shows "ft_wf H (snd (addPeer H t p))"
proof (cases "peerId p = selfId t")
  case True
  then show ?thesis using wf by (simp add: addPeer_def)
next
  case notself: False
  let ?k = "peerId p"
  define t1 where "t1 = (if map_of (peerMap t) ?k \<noteq> None then removePeer H t ?k else t)"
  have wf1: "ft_wf H t1" using wf removePeer_wf[OF wf] by (simp add: t1_def)
  have self1: "selfId t1 = selfId t" by (simp add: t1_def)
  have absent: "map_of (peerMap t1) ?k = None"
    by (auto simp: t1_def removePeer_gone)
  define idx where "idx = bucketIndex H (selfId t) ?k"
  from wf1 have dB: "distinct (map fst (buckets t1))" and dM: "distinct (map fst (peerMap t1))"
    and B: "\<And>i b. map_of (buckets t1) i = Some b \<Longrightarrow>
          b \<noteq> [] \<and> length b \<le> K_BUCKET_SIZE \<and> distinct (map peerId b) \<and>
          (\<forall>p \<in> set b. map_of (peerMap t1) (peerId p) = Some p \<and>
                      bucketIndex H (selfId t) (peerId p) = i)"
    and M: "\<And>k p. map_of (peerMap t1) k = Some p \<Longrightarrow>
          peerId p = k \<and> k \<noteq> selfId t \<and>
          (\<exists>b. map_of (buckets t1) (bucketIndex H (selfId t) k) = Some b \<and> p \<in> set b)"
    and C: "length (peerMap t1) = sum_list (map (\<lambda>(i, b). length b) (buckets t1))"
    unfolding ft_wf_alt self1 by blast+
  define b0 where "b0 = (case map_of (buckets t1) idx of None \<Rightarrow> [] | Some b \<Rightarrow> b)"
  have A: "addPeer H t p =
      (if length b0 \<ge> K_BUCKET_SIZE
       then (False, if map_of (buckets t1) idx = None
                    then t1\<lparr>buckets := AList.update idx [] (buckets t1)\<rparr> else t1)
       else (True, t1\<lparr>buckets := AList.update idx (b0 @ [p]) (buckets t1),
                       peerMap := AList.update ?k p (peerMap t1)\<rparr>))"
  proof (cases "map_of (buckets t1) idx")
    case None
    then have "b0 = []" by (simp add: b0_def)
    then show ?thesis using notself None self1 unfolding addPeer_def t1_def[symmetric]
      by (simp add: Let_def AList.update_conv' K_BUCKET_SIZE_def idx_def[symmetric])
  next
    case (Some b)
    then have "b0 = b" by (simp add: b0_def)
    then show ?thesis using notself Some self1 unfolding addPeer_def t1_def[symmetric]
      by (simp add: Let_def idx_def[symmetric])
  qed
  show ?thesis
  proof (cases "length b0 \<ge> K_BUCKET_SIZE")
    case True
    then have "map_of (buckets t1) idx \<noteq> None"
      by (auto simp: b0_def K_BUCKET_SIZE_def split: option.splits)
    then have "snd (addPeer H t p) = t1"
      using True unfolding A by auto
    then show ?thesis using wf1 by simp
  next
    case False
    let ?bs = "AList.update idx (b0 @ [p]) (buckets t1)"
    let ?pm = "AList.update ?k p (peerMap t1)"
    have R: "snd (addPeer H t p) = t1\<lparr>buckets := ?bs, peerMap := ?pm\<rparr>"
      using False unfolding A by simp
    have mB: "map_of ?bs = (map_of (buckets t1))(idx \<mapsto> b0 @ [p])"
      by (simp add: AList.update_conv')
    have mM: "map_of ?pm = (map_of (peerMap t1))(?k \<mapsto> p)"
      by (simp add: AList.update_conv')
    have d1: "distinct (map fst ?bs)" using dB by (simp add: AList.distinct_update)
    have d2: "distinct (map fst ?pm)" using dM by (simp add: AList.distinct_update)
    have c1: "sum_list (map (\<lambda>(i, b). length b) ?bs)
              = Suc (sum_list (map (\<lambda>(i, b). length b) (buckets t1)))"
    proof (cases "map_of (buckets t1) idx")
      case None
      then show ?thesis using sum_update_absent[OF None, of "b0 @ [p]"] by (simp add: b0_def)
    next
      case (Some b)
      then show ?thesis using sum_update_present[OF dB Some, of "b0 @ [p]"] by (simp add: b0_def)
    qed
    have c2: "length ?pm = Suc (length (peerMap t1))"
      by (rule length_update_absent[OF absent])
    have cnt: "length ?pm = sum_list (map (\<lambda>(i, b). length b) ?bs)"
      using c1 c2 C by simp
    have b0props: "length b0 \<le> K_BUCKET_SIZE \<and> distinct (map peerId b0) \<and>
          (\<forall>q \<in> set b0. map_of (peerMap t1) (peerId q) = Some q \<and>
                      bucketIndex H (selfId t) (peerId q) = idx)"
      using B[of idx] by (auto simp: b0_def split: option.splits)
    have notin: "\<And>i c q. map_of (buckets t1) i = Some c \<Longrightarrow> q \<in> set c \<Longrightarrow> peerId q \<noteq> ?k"
      using B absent by fastforce
    have notin0: "\<And>q. q \<in> set b0 \<Longrightarrow> peerId q \<noteq> ?k"
      using b0props absent by fastforce
    have B': "\<And>i c. map_of ?bs i = Some c \<Longrightarrow>
          c \<noteq> [] \<and> length c \<le> K_BUCKET_SIZE \<and> distinct (map peerId c) \<and>
          (\<forall>q \<in> set c. map_of ?pm (peerId q) = Some q \<and>
                      bucketIndex H (selfId t) (peerId q) = i)"
    proof -
      fix i c assume ic: "map_of ?bs i = Some c"
      show "c \<noteq> [] \<and> length c \<le> K_BUCKET_SIZE \<and> distinct (map peerId c) \<and>
          (\<forall>q \<in> set c. map_of ?pm (peerId q) = Some q \<and>
                      bucketIndex H (selfId t) (peerId q) = i)"
      proof (cases "i = idx")
        case True
        with ic have c: "c = b0 @ [p]" unfolding mB by simp
        have "peerId p \<notin> peerId ` set b0" using notin0 by force
        then have dc: "distinct (map peerId (b0 @ [p]))" using b0props by simp
        have lc: "length (b0 @ [p]) \<le> K_BUCKET_SIZE" using False by simp
        have qc: "map_of ?pm (peerId q) = Some q \<and> bucketIndex H (selfId t) (peerId q) = i"
          if "q \<in> set (b0 @ [p])" for q
        proof (cases "q = p")
          case True
          then show ?thesis unfolding mM using \<open>i = idx\<close> by (simp add: idx_def)
        next
          case False
          with that have "q \<in> set b0" by simp
          then show ?thesis unfolding mM using b0props notin0[of q] \<open>i = idx\<close> by simp
        qed
        show ?thesis unfolding c using dc lc qc by blast
      next
        case ne: False
        with ic have c: "map_of (buckets t1) i = Some c" unfolding mB by (auto split: if_splits)
        show ?thesis unfolding mM using B[OF c] notin[OF c] by auto
      qed
    qed
    have M': "\<And>k' q. map_of ?pm k' = Some q \<Longrightarrow>
          peerId q = k' \<and> k' \<noteq> selfId t \<and>
          (\<exists>c. map_of ?bs (bucketIndex H (selfId t) k') = Some c \<and> q \<in> set c)"
    proof -
      fix k' q assume kq: "map_of ?pm k' = Some q"
      show "peerId q = k' \<and> k' \<noteq> selfId t \<and>
          (\<exists>c. map_of ?bs (bucketIndex H (selfId t) k') = Some c \<and> q \<in> set c)"
      proof (cases "k' = ?k")
        case True
        with kq have "q = p" unfolding mM by simp
        then show ?thesis using True notself unfolding mB by (simp add: idx_def)
      next
        case False
        with kq have kq0: "map_of (peerMap t1) k' = Some q" unfolding mM by (auto split: if_splits)
        from M[OF kq0] obtain c where pk: "peerId q = k'" "k' \<noteq> selfId t"
          and c: "map_of (buckets t1) (bucketIndex H (selfId t) k') = Some c" and qc: "q \<in> set c"
          by blast
        show ?thesis
        proof (cases "bucketIndex H (selfId t) k' = idx")
          case True
          with c have "b0 = c" by (simp add: b0_def)
          then show ?thesis using pk qc True unfolding mB by auto
        next
          case False
          then show ?thesis using pk c qc unfolding mB by auto
        qed
      qed
    qed
    show ?thesis unfolding R
    proof (rule ft_wfI, goal_cases)
      case 1 show ?case using d1 by simp
    next
      case 2 show ?case using d2 by simp
    next
      case (3 i c) then show ?case using B'[of i c] self1 by simp
    next
      case (4 k' q) then show ?case using M'[of k' q] self1 by simp
    next
      case 5 show ?case using cnt by simp
    qed
  qed
qed

lemma FingerTable_wf: "ft_wf H (FingerTable self)"
  by (simp add: ft_wf_def FingerTable_def)

lemma ftCalls_wf: "ft_wf H t \<Longrightarrow> ft_wf H (ftCalls H t cs)"
  by (induction H t cs rule: ftCalls.induct) (simp_all add: addPeer_wf removePeer_wf)

lemma filter_keys_single:
  "distinct (map fst xs) \<Longrightarrow> (i, b) \<in> set xs \<Longrightarrow> P (i, b) \<Longrightarrow>
   (\<And>j c. (j, c) \<in> set xs \<Longrightarrow> P (j, c) \<Longrightarrow> j = i) \<Longrightarrow>
   map fst (filter P xs) = [i]"
proof (induction xs)
  case Nil
  then show ?case by simp
next
  case (Cons x xs)
  obtain j c where x: "x = (j, c)" by (cases x)
  show ?case
  proof (cases "(i, b) = x")
    case True
    have "filter P xs = []"
    proof (rule ccontr)
      assume "filter P xs \<noteq> []"
      then obtain y where y: "y \<in> set xs" "P y" by (metis filter_False)
      obtain j' c' where y': "y = (j', c')" by (cases y)
      with y Cons.prems(4)[of j' c'] have "j' = i" by simp
      with y y' True Cons.prems(1) show False by force
    qed
    then show ?thesis using True Cons.prems(3) by auto
  next
    case False
    with Cons.prems have in_xs: "(i, b) \<in> set xs" by simp
    have "\<not> P x"
    proof
      assume "P x"
      with x Cons.prems(4)[of j c] have "j = i" by simp
      with x in_xs Cons.prems(1) show False by force
    qed
    moreover have "map fst (filter P xs) = [i]"
    proof (rule Cons.IH[OF _ in_xs Cons.prems(3)])
      show "distinct (map fst xs)" using Cons.prems(1) by simp
    next
      fix j c assume "(j, c) \<in> set xs" "P (j, c)"
      then show "j = i" using Cons.prems(4)[of j c] by simp
    qed
    ultimately show ?thesis by simp
  qed
qed

lemma ft_wf_ftInvariant:
  assumes wf: "ft_wf H t"
  shows "ftInvariant H t"
proof -
  from wf have dB: "distinct (map fst (buckets t))" and dM: "distinct (map fst (peerMap t))"
    and B: "\<And>i b. map_of (buckets t) i = Some b \<Longrightarrow>
          b \<noteq> [] \<and> length b \<le> K_BUCKET_SIZE \<and> distinct (map peerId b) \<and>
          (\<forall>p \<in> set b. map_of (peerMap t) (peerId p) = Some p \<and>
                      bucketIndex H (selfId t) (peerId p) = i)"
    and M: "\<And>k p. map_of (peerMap t) k = Some p \<Longrightarrow>
          peerId p = k \<and> k \<noteq> selfId t \<and>
          (\<exists>b. map_of (buckets t) (bucketIndex H (selfId t) k) = Some b \<and> p \<in> set b)"
    and C: "length (peerMap t) = sum_list (map (\<lambda>(i, b). length b) (buckets t))"
    unfolding ft_wf_alt by blast+
  have Bset: "\<And>i b. (i, b) \<in> set (buckets t) \<Longrightarrow> map_of (buckets t) i = Some b"
    using dB by simp
  have 1: "bucketsHolding t k = [bucketIndex H (selfId t) k]" if "k \<in> set (getPeerIds t)" for k
  proof -
    from that obtain p where "(k, p) \<in> set (peerMap t)" by (auto simp: getPeerIds_def)
    then have "map_of (peerMap t) k = Some p" using dM by simp
    from M[OF this] obtain b where pk: "peerId p = k"
      and b: "map_of (buckets t) (bucketIndex H (selfId t) k) = Some b" and pb: "p \<in> set b"
      by blast
    have inb: "(bucketIndex H (selfId t) k, b) \<in> set (buckets t)"
      using b by (rule map_of_SomeD)
    have holds: "(\<lambda>(i, b). k \<in> peerId ` set b) (bucketIndex H (selfId t) k, b)"
      using pk pb by auto
    have uniq: "j = bucketIndex H (selfId t) k"
      if "(j, c) \<in> set (buckets t)" "(\<lambda>(i, b). k \<in> peerId ` set b) (j, c)" for j c
      using B[OF Bset[OF that(1)]] that(2) by auto
    show ?thesis unfolding bucketsHolding_def
      by (rule filter_keys_single[where P = "\<lambda>(i, b). k \<in> peerId ` set b" and b = b,
                                  OF dB inb holds uniq])
  qed
  have 2: "\<forall>(i, b) \<in> set (buckets t). \<forall>p \<in> set b. getPeer t (peerId p) = Some p"
    using B Bset unfolding getPeer_def by blast
  have 3: "\<forall>(i, b) \<in> set (buckets t). length b \<le> K_BUCKET_SIZE"
    using B Bset by blast
  have 4: "\<forall>(i, b) \<in> set (buckets t). b \<noteq> []"
    using B Bset by blast
  have "length (concat (map snd (buckets t))) = sum_list (map (\<lambda>(i, b). length b) (buckets t))"
    by (simp add: length_concat comp_def case_prod_unfold)
  then have 5: "count t = length (concat (map snd (buckets t)))"
    using C by (simp add: count_def)
  show ?thesis unfolding ftInvariant_def using 1 2 3 4 5 by blast
qed






text \<open>
  For calls that do not overlap the invariant of claim C9 holds: after any sequence of
  \<open>addPeer\<close> and \<open>removePeer\<close> calls on a fresh table, each run to its end before
  the next starts, every id in \<open>peerMap\<close> occurs in exactly one bucket, the one at
  \<open>bucketIndex selfId id\<close>; every peer stored in a bucket is registered in \<open>peerMap\<close>
  under its id; no bucket holds more than 20 peers; no bucket is empty; and \<open>count\<close> is
  the number of peers in all buckets.
\<close>

lemma sequential_invariant: "ftInvariant H (ftCalls H (FingerTable self) cs)"
  by (rule ft_wf_ftInvariant[OF ftCalls_wf[OF FingerTable_wf]])

text \<open>A call that is resumed before any other call starts is the call run in one piece.\<close>

lemma removePeer_parts:
  "removePeer H t pid =
     (case removePeerStart t pid of None \<Rightarrow> t | Some task \<Rightarrow> fst (resume H t task))"
  by (simp add: removePeer_def removePeerStart_def removePeerRest_def)

lemma removePeerRest_selfId: "selfId (removePeerRest H t pid) = selfId t"
  by (simp add: removePeerRest_def Let_def)

lemma addPeer_parts:
  "addPeer H t p =
     (case addPeerStart t p of
        Returned b \<Rightarrow> (b, t)
      | Waiting task \<Rightarrow>
          (case resume H t task of
             (t1, None) \<Rightarrow> addPeerRest H t p
           | (t1, Some task') \<Rightarrow> addPeerRest H t1 p))"
proof -
  have r: "removePeer H t (peerId p) = removePeerRest H t (peerId p)"
    if "map_of (peerMap t) (peerId p) \<noteq> None"
    using that by (auto simp: removePeer_def removePeerRest_def)
  show ?thesis
  proof (cases "peerId p = selfId t")
    case True
    then show ?thesis by (simp add: addPeer_def addPeerStart_def)
  next
    case False
    show ?thesis
    proof (cases "map_of (peerMap t) (peerId p) = None")
      case True
      then show ?thesis using False
        by (simp add: addPeer_def addPeerStart_def addPeerRest_def)
    next
      case present: False
      then show ?thesis using False r[OF present]
        by (simp add: addPeer_def addPeerStart_def addPeerRest_def removePeerRest_selfId Let_def)
    qed
  qed
qed

lemma ftStep_call_alone:
  "fold (ftStep H) [Start c, Continue 0, Continue 0] (t, []) = (ftCalls H t [c], [])"
proof (cases c)
  case (AddPeer p)
  show ?thesis
  proof (cases "addPeerStart t p")
    case (Returned b)
    then show ?thesis using AddPeer addPeer_parts[of H t p] by simp
  next
    case (Waiting task)
    then have tk: "task = AddRemoving p \<or> task = AddIndexing p"
      by (auto simp: addPeerStart_def split: if_splits)
    then show ?thesis using AddPeer Waiting addPeer_parts[of H t p] by auto
  qed
next
  case (RemovePeer pid)
  then show ?thesis using removePeer_parts[of H t pid]
    by (auto simp: removePeerStart_def split: if_splits)
qed

lemma ftRun_sequential:
  "fold (ftStep H) (concat (map (\<lambda>c. [Start c, Continue 0, Continue 0]) cs)) (t, [])
   = (ftCalls H t cs, [])"
proof (induction cs arbitrary: t)
  case Nil
  then show ?case by simp
next
  case (Cons c cs)
  have "fold (ftStep H) (concat (map (\<lambda>c. [Start c, Continue 0, Continue 0]) (c # cs))) (t, [])
        = fold (ftStep H) (concat (map (\<lambda>c. [Start c, Continue 0, Continue 0]) cs))
            (fold (ftStep H) [Start c, Continue 0, Continue 0] (t, []))"
    by simp
  also have "\<dots> = (ftCalls H (ftCalls H t [c]) cs, [])"
    unfolding ftStep_call_alone by (rule Cons.IH)
  also have "ftCalls H (ftCalls H t [c]) cs = ftCalls H t (c # cs)"
    by (cases c) simp_all
  finally show ?case .
qed

text \<open>The table that two overlapping \<open>addPeer\<close> calls for one id leave breaks the invariant.\<close>

lemma duplicate_breaks_invariant:
  "\<not> ftInvariant demoHash
       \<lparr>selfId = ''self'',
       buckets = [(6, [\<lparr>peerId = ''peerA'', send = ''ws_1''\<rparr>, \<lparr>peerId = ''peerA'', send = ''ws_2''\<rparr>])],
       peerMap = [(''peerA'', \<lparr>peerId = ''peerA'', send = ''ws_2''\<rparr>)]\<rparr>"
  by (simp add: ftInvariant_def count_def)

text \<open>
  Claim C9 on a concrete run with overlapping calls. Peer \<open>peerA\<close> says HELLO on
  connection \<open>ws_1\<close> and again on \<open>ws_2\<close>; both \<open>addPeer\<close> calls pass the test
  of \<open>peerMap.has\<close> before either has got its bucket index. When both have resumed,
  bucket 6 holds two peers with id \<open>peerA\<close> while \<open>peerMap\<close> has one entry:
  \<open>count\<close> is 1 with two peers in the buckets, the id occurs twice in its bucket, and
  the peer of \<open>ws_1\<close> sits in the bucket while the peer registered under its id is the
  one of \<open>ws_2\<close>.
\<close>

theorem overlapping_addPeer_duplicates:
  "ftRun demoHash (FingerTable ''self'')
     [Start (AddPeer \<lparr>peerId = ''peerA'', send = ''ws_1''\<rparr>),
      Start (AddPeer \<lparr>peerId = ''peerA'', send = ''ws_2''\<rparr>),
      Continue 0, Continue 0]
   = (\<lparr>selfId = ''self'',
       buckets = [(6, [\<lparr>peerId = ''peerA'', send = ''ws_1''\<rparr>, \<lparr>peerId = ''peerA'', send = ''ws_2''\<rparr>])],
       peerMap = [(''peerA'', \<lparr>peerId = ''peerA'', send = ''ws_2''\<rparr>)]\<rparr>, []) \<and>
   count \<lparr>selfId = ''self'',
       buckets = [(6, [\<lparr>peerId = ''peerA'', send = ''ws_1''\<rparr>, \<lparr>peerId = ''peerA'', send = ''ws_2''\<rparr>])],
       peerMap = [(''peerA'', \<lparr>peerId = ''peerA'', send = ''ws_2''\<rparr>)]\<rparr> = 1 \<and>
   length (concat (map snd (buckets \<lparr>selfId = ''self'',
       buckets = [(6, [\<lparr>peerId = ''peerA'', send = ''ws_1''\<rparr>, \<lparr>peerId = ''peerA'', send = ''ws_2''\<rparr>])],
       peerMap = [(''peerA'', \<lparr>peerId = ''peerA'', send = ''ws_2''\<rparr>)]\<rparr>))) = 2 \<and>
   map peerId (concat (map snd (buckets \<lparr>selfId = ''self'',
       buckets = [(6, [\<lparr>peerId = ''peerA'', send = ''ws_1''\<rparr>, \<lparr>peerId = ''peerA'', send = ''ws_2''\<rparr>])],
       peerMap = [(''peerA'', \<lparr>peerId = ''peerA'', send = ''ws_2''\<rparr>)]\<rparr>))) = [''peerA'', ''peerA''] \<and>
   getPeer \<lparr>selfId = ''self'',
       buckets = [(6, [\<lparr>peerId = ''peerA'', send = ''ws_1''\<rparr>, \<lparr>peerId = ''peerA'', send = ''ws_2''\<rparr>])],
       peerMap = [(''peerA'', \<lparr>peerId = ''peerA'', send = ''ws_2''\<rparr>)]\<rparr> ''peerA''
     = Some \<lparr>peerId = ''peerA'', send = ''ws_2''\<rparr>"
proof -
  have b: "bucketIndex demoHash ''self'' ''peerA'' = 6" by code_simp
  have run: "ftRun demoHash (FingerTable ''self'')
     [Start (AddPeer \<lparr>peerId = ''peerA'', send = ''ws_1''\<rparr>),
      Start (AddPeer \<lparr>peerId = ''peerA'', send = ''ws_2''\<rparr>),
      Continue 0, Continue 0]
   = (\<lparr>selfId = ''self'',
       buckets = [(6, [\<lparr>peerId = ''peerA'', send = ''ws_1''\<rparr>, \<lparr>peerId = ''peerA'', send = ''ws_2''\<rparr>])],
       peerMap = [(''peerA'', \<lparr>peerId = ''peerA'', send = ''ws_2''\<rparr>)]\<rparr>, [])"
    by (simp add: ftRun_def FingerTable_def addPeerStart_def addPeerRest_def b K_BUCKET_SIZE_def Let_def)
  show ?thesis using run by (simp add: count_def getPeer_def)
qed

section \<open>Rate limiter: proofs\<close>

lemma currentClient_window:
  "\<forall>time \<in> set (requests (currentClient now clientId clients)). now - time < windowMs"
  by (simp add: currentClient_def Let_def)

lemma withinCap_update:
  "withinCap clients \<Longrightarrow> length (requests c) \<le> maxRequests \<Longrightarrow>
   withinCap (AList.update k c clients)"
  unfolding withinCap_def
  by (induction clients) (auto split: if_splits)

lemma currentClient_length:
  "withinCap clients \<Longrightarrow> length (requests (currentClient now clientId clients)) \<le> maxRequests"
proof (cases "map_of clients clientId")
  case None
  then show ?thesis by (simp add: currentClient_def)
next
  case (Some c)
  assume "withinCap clients"
  with Some have "length (requests c) \<le> maxRequests"
    unfolding withinCap_def by (auto dest: map_of_SomeD)
  moreover have "length (filter (\<lambda>time. now - time < windowMs) (requests c)) \<le> length (requests c)"
    by (rule length_filter_le)
  ultimately have "length (filter (\<lambda>time. now - time < windowMs) (requests c)) \<le> maxRequests"
    by linarith
  then show ?thesis using Some by (simp add: currentClient_def)
qed

lemma getDelay_withinCap: "withinCap clients \<Longrightarrow> withinCap (snd (getDelay now clientId clients))"
  using currentClient_length[of clients now clientId]
  by (auto simp: getDelay_def Let_def intro!: withinCap_update)

lemma cleanup_withinCap: "withinCap clients \<Longrightarrow> withinCap (cleanup now clients)"
proof -
  have f: "length (filter P xs) \<le> maxRequests" if "length xs \<le> maxRequests"
    for P and xs :: "int list"
    using that length_filter_le[of P xs] by linarith
  assume "withinCap clients"
  then have "\<And>a b. (a, b) \<in> set clients \<Longrightarrow> length (requests b) \<le> maxRequests"
    unfolding withinCap_def by blast
  then show ?thesis unfolding withinCap_def cleanup_def by (auto intro!: f)
qed

lemma rateRun_withinCap: "withinCap clients \<Longrightarrow> withinCap (rateRun clients es)"
  by (induction clients es rule: rateRun.induct)
     (simp_all add: getDelay_withinCap cleanup_withinCap)

lemma getDelay_lookup:
  "map_of (snd (getDelay now clientId clients)) clientId =
     Some (let client = currentClient now clientId clients
           in if length (requests client) \<ge> maxRequests
              then client\<lparr>throttleCount := throttleCount client + 1\<rparr>
              else client\<lparr>requests := requests client @ [now]\<rparr>)"
  by (simp add: getDelay_def Let_def AList.update_conv')

lemma getDelay_others:
  "other \<noteq> clientId \<Longrightarrow>
   map_of (snd (getDelay now clientId clients)) other = map_of clients other"
  by (simp add: getDelay_def Let_def AList.update_conv')

lemma throttled_delay_positive:
  assumes "length (requests (currentClient now clientId clients)) \<ge> maxRequests"
  shows "0 < windowMs - (now - Min (set (requests (currentClient now clientId clients))))"
proof -
  let ?rs = "requests (currentClient now clientId clients)"
  from assms have ne: "set ?rs \<noteq> {}" by (auto simp: maxRequests_def)
  then have "Min (set ?rs) \<in> set ?rs" by (intro Min_in) simp_all
  with currentClient_window[of now clientId clients] show ?thesis by auto
qed

text \<open>
  Claim C7. For a limiter state reached by any requests and sweeps, and a request of
  \<open>clientId\<close> at time \<open>now\<close>: the requests counted are the stored requests of the
  client that are less than 60000 ms old, never more than 1500 of them. With fewer than
  1500 the request is recorded, the stored throttle counter is kept and the delay is 0.
  With 1500 the request is not recorded, the delay is \<open>max 0 (60000 - (now - oldest))\<close>
  (which is positive), the stored throttle counter of the client grows by one, and once
  that counter is 10 or more \<open>shouldDisconnect\<close> holds and the message handler drops the
  message for disconnection instead of sleeping. A client not yet stored counts as one
  with no requests and counter 0.
\<close>

theorem rate_limiter_window:
  "let clients = rateRun [] es;
       stored = map_of clients clientId;
       inWindow = filter (\<lambda>time. now - time < 60000)
                    (case stored of Some c \<Rightarrow> requests c | None \<Rightarrow> []);
       throttled = (case stored of Some c \<Rightarrow> throttleCount c | None \<Rightarrow> 0);
       since = (case stored of Some c \<Rightarrow> lastCleanup c | None \<Rightarrow> now);
       (delay, clients') = getDelay now clientId clients;
       (verdict, clients'') = rateLimit now clientId clients
   in length inWindow \<le> 1500 \<and>
      clients'' = clients' \<and>
      (\<forall>other. other \<noteq> clientId \<longrightarrow> map_of clients' other = map_of clients other) \<and>
      (length inWindow < 1500 \<longrightarrow>
         delay = 0 \<and> verdict = Proceed \<and>
         map_of clients' clientId
           = Some \<lparr>requests = inWindow @ [now], lastCleanup = since, throttleCount = throttled\<rparr>) \<and>
      (length inWindow \<ge> 1500 \<longrightarrow>
         delay = max 0 (60000 - (now - Min (set inWindow))) \<and> delay > 0 \<and>
         map_of clients' clientId
           = Some \<lparr>requests = inWindow, lastCleanup = since, throttleCount = throttled + 1\<rparr> \<and>
         shouldDisconnect clientId clients' = (throttled + 1 \<ge> 10) \<and>
         verdict = (if throttled + 1 \<ge> 10 then Disconnecting else Sleep delay))"
proof -
  define clients where "clients = rateRun [] es"
  define client where "client = currentClient now clientId clients"
  define inWindow where "inWindow = filter (\<lambda>time. now - time < 60000)
                    (case map_of clients clientId of Some c \<Rightarrow> requests c | None \<Rightarrow> [])"
  define throttled where "throttled = (case map_of clients clientId of Some c \<Rightarrow> throttleCount c | None \<Rightarrow> 0)"
  define since where "since = (case map_of clients clientId of Some c \<Rightarrow> lastCleanup c | None \<Rightarrow> now)"
  have cap: "withinCap clients"
    unfolding clients_def by (rule rateRun_withinCap) (simp add: withinCap_def)
  have cl: "client = \<lparr>requests = inWindow, lastCleanup = since, throttleCount = throttled\<rparr>"
    by (simp add: client_def currentClient_def windowMs_def inWindow_def throttled_def since_def
             split: option.splits)
  have l: "length inWindow \<le> 1500"
    using currentClient_length[OF cap, of now clientId] by (simp add: client_def[symmetric] cl maxRequests_def)
  have o: "\<forall>other. other \<noteq> clientId \<longrightarrow>
            map_of (snd (getDelay now clientId clients)) other = map_of clients other"
    by (simp add: getDelay_others)
  have lk: "map_of (snd (getDelay now clientId clients)) clientId =
     Some (if length inWindow \<ge> maxRequests
              then \<lparr>requests = inWindow, lastCleanup = since, throttleCount = throttled + 1\<rparr>
              else \<lparr>requests = inWindow @ [now], lastCleanup = since, throttleCount = throttled\<rparr>)"
    using getDelay_lookup[of now clientId clients] by (simp add: Let_def client_def[symmetric] cl)
  have d: "fst (getDelay now clientId clients) =
      (if length inWindow \<ge> maxRequests
       then max 0 (windowMs - (now - Min (set inWindow))) else 0)"
    by (simp add: getDelay_def Let_def client_def[symmetric] cl)
  have pos: "length inWindow \<ge> maxRequests \<Longrightarrow> 0 < windowMs - (now - Min (set inWindow))"
    using throttled_delay_positive[of now clientId clients] by (simp add: client_def[symmetric] cl)
  have sd: "length inWindow \<ge> maxRequests \<Longrightarrow>
      shouldDisconnect clientId (snd (getDelay now clientId clients)) = (throttled + 1 \<ge> 10)"
    by (simp add: shouldDisconnect_def lk)
  have rl: "rateLimit now clientId clients =
      (if length inWindow \<ge> maxRequests
       then (if throttled + 1 \<ge> 10 then Disconnecting
             else Sleep (fst (getDelay now clientId clients)))
       else Proceed, snd (getDelay now clientId clients))"
    using pos sd d by (auto simp: rateLimit_def case_prod_unfold Let_def)
  show ?thesis
    unfolding Let_def clients_def[symmetric] inWindow_def[symmetric] throttled_def[symmetric]
              since_def[symmetric] case_prod_unfold
    using l o lk d pos sd rl by (auto simp: maxRequests_def windowMs_def)
qed

lemma rateRun_same_instant:
  "m + n \<le> 1500 \<Longrightarrow>
   rateRun [(c, \<lparr>requests = replicate m 0, lastCleanup = 0, throttleCount = 0\<rparr>)]
           (replicate n (Request 0 c))
   = [(c, \<lparr>requests = replicate (m + n) 0, lastCleanup = 0, throttleCount = 0\<rparr>)]"
proof (induction n arbitrary: m)
  case 0
  then show ?case by simp
next
  case (Suc n)
  have "snd (getDelay 0 c [(c, \<lparr>requests = replicate m 0, lastCleanup = 0, throttleCount = 0\<rparr>)])
        = [(c, \<lparr>requests = replicate (Suc m) 0, lastCleanup = 0, throttleCount = 0\<rparr>)]"
    using Suc.prems
    by (simp add: getDelay_def currentClient_def Let_def windowMs_def maxRequests_def
                  replicate_append_same)
  then show ?case using Suc.IH[of "Suc m"] Suc.prems by simp
qed

lemma rateRun_burst:
  "rateRun [] (replicate 1500 (Request 0 c))
   = [(c, \<lparr>requests = replicate 1500 0, lastCleanup = 0, throttleCount = 0\<rparr>)]"
proof -
  have "replicate 1500 (Request 0 c) = Request 0 c # replicate 1499 (Request 0 c)"
    by (simp add: numeral_eq_Suc)
  moreover have "snd (getDelay 0 c []) =
      [(c, \<lparr>requests = replicate 1 0, lastCleanup = 0, throttleCount = 0\<rparr>)]"
    by (simp add: getDelay_def currentClient_def Let_def maxRequests_def)
  ultimately show ?thesis using rateRun_same_instant[of 1 1499 c] by simp
qed

lemma throttled_again:
  "getDelay 1 c [(c, \<lparr>requests = replicate 1500 0, lastCleanup = 0, throttleCount = k\<rparr>)]
   = (59999, [(c, \<lparr>requests = replicate 1500 0, lastCleanup = 0, throttleCount = Suc k\<rparr>)])"
  by (simp add: getDelay_def currentClient_def Let_def windowMs_def maxRequests_def)

lemma rateRun_throttled:
  "rateRun [(c, \<lparr>requests = replicate 1500 0, lastCleanup = 0, throttleCount = k\<rparr>)]
           (replicate n (Request 1 c))
   = [(c, \<lparr>requests = replicate 1500 0, lastCleanup = 0, throttleCount = k + n\<rparr>)]"
  by (induction n arbitrary: k) (simp_all add: throttled_again)

lemma rateRun_append: "rateRun clients (es @ es') = rateRun (rateRun clients es) es'"
  by (induction clients es rule: rateRun.induct) simp_all

lemma rateRun_flood:
  "rateRun [] (replicate 1500 (Request 0 c) @ replicate n (Request 1 c))
   = [(c, \<lparr>requests = replicate 1500 0, lastCleanup = 0, throttleCount = n\<rparr>)]"
  using rateRun_throttled[of c 0 n] by (simp add: rateRun_append rateRun_burst)

text \<open>
  After 1500 requests of client \<open>a\<close> at time 0 and eight more at time 1, which were
  throttled, a ninth request of \<open>a\<close> at time 1 is delayed by 59999 ms and brings the
  stored counter to 9; after nine throttled requests the tenth brings it to 10 and the
  client is to be disconnected. A request of client \<open>b\<close> is recorded and not delayed.
\<close>

theorem rate_limiter_window_witness:
  "rateLimit 1 ''a'' (rateRun [] (replicate 1500 (Request 0 ''a'') @ replicate 8 (Request 1 ''a'')))
     = (Sleep 59999, [(''a'', \<lparr>requests = replicate 1500 0, lastCleanup = 0, throttleCount = 9\<rparr>)]) \<and>
   rateLimit 1 ''a'' (rateRun [] (replicate 1500 (Request 0 ''a'') @ replicate 9 (Request 1 ''a'')))
     = (Disconnecting, [(''a'', \<lparr>requests = replicate 1500 0, lastCleanup = 0, throttleCount = 10\<rparr>)]) \<and>
   fst (rateLimit 1 ''b'' (rateRun [] (replicate 1500 (Request 0 ''a'') @ replicate 9 (Request 1 ''a''))))
     = Proceed \<and>
   map_of (snd (rateLimit 1 ''b'' (rateRun [] (replicate 1500 (Request 0 ''a'') @ replicate 9 (Request 1 ''a'')))))
          ''b''
     = Some \<lparr>requests = [1], lastCleanup = 1, throttleCount = 0\<rparr>"
proof -
  have g8: "getDelay 1 ''a'' (rateRun [] (replicate 1500 (Request 0 ''a'') @ replicate 8 (Request 1 ''a'')))
            = (59999, [(''a'', \<lparr>requests = replicate 1500 0, lastCleanup = 0, throttleCount = 9\<rparr>)])"
    by (simp add: rateRun_flood throttled_again)
  have g9: "getDelay 1 ''a'' (rateRun [] (replicate 1500 (Request 0 ''a'') @ replicate 9 (Request 1 ''a'')))
            = (59999, [(''a'', \<lparr>requests = replicate 1500 0, lastCleanup = 0, throttleCount = 10\<rparr>)])"
    by (simp add: rateRun_flood throttled_again)
  have 1: "rateLimit 1 ''a'' (rateRun [] (replicate 1500 (Request 0 ''a'') @ replicate 8 (Request 1 ''a'')))
     = (Sleep 59999, [(''a'', \<lparr>requests = replicate 1500 0, lastCleanup = 0, throttleCount = 9\<rparr>)])"
    using rate_limiter_window[where es = "replicate 1500 (Request 0 ''a'') @ replicate 8 (Request 1 ''a'')" and now = 1 and clientId = "''a''"]
    unfolding Let_def case_prod_unfold g8
    by (simp add: rateRun_flood prod_eq_iff)
  have 2: "rateLimit 1 ''a'' (rateRun [] (replicate 1500 (Request 0 ''a'') @ replicate 9 (Request 1 ''a'')))
     = (Disconnecting, [(''a'', \<lparr>requests = replicate 1500 0, lastCleanup = 0, throttleCount = 10\<rparr>)])"
    using rate_limiter_window[where es = "replicate 1500 (Request 0 ''a'') @ replicate 9 (Request 1 ''a'')" and now = 1 and clientId = "''a''"]
    unfolding Let_def case_prod_unfold g9
    by (simp add: rateRun_flood prod_eq_iff)
  have 3: "fst (rateLimit 1 ''b'' (rateRun [] (replicate 1500 (Request 0 ''a'') @ replicate 9 (Request 1 ''a''))))
     = Proceed \<and>
   map_of (snd (rateLimit 1 ''b'' (rateRun [] (replicate 1500 (Request 0 ''a'') @ replicate 9 (Request 1 ''a'')))))
          ''b''
     = Some \<lparr>requests = [1], lastCleanup = 1, throttleCount = 0\<rparr>"
    using rate_limiter_window[where es = "replicate 1500 (Request 0 ''a'') @ replicate 9 (Request 1 ''a'')" and now = 1 and clientId = "''b''"]
    unfolding Let_def case_prod_unfold
    by (simp add: rateRun_flood)
  show ?thesis using 1 2 3 by simp
qed

section \<open>Outbound message queue: proofs\<close>





lemma queueInv_mono: "queueInv t q \<Longrightarrow> t \<le> t' \<Longrightarrow> queueInv t' q"
  unfolding queueInv_def by auto





section \<open>Wire transport: proofs\<close>

lemma sendFunction_shape:
  "\<exists>q. snd (sendFunction opt t data w) = w\<lparr>messageQueue := q\<rparr>"
proof (cases "mode opt")
  case LocalOnly
  then have "snd (sendFunction opt t data w) = w\<lparr>messageQueue := messageQueue w\<rparr>"
    by (simp add: sendFunction_def)
  then show ?thesis by blast
qed (auto simp: sendFunction_def case_prod_unfold Let_def)

lemma sendFunction_err:
  "fst (sendFunction opt t data w) =
     (if sendOk opt w then None else Some (''Message queue exceeded maximum length ('' @ showNat (queueCap opt) @ '')''))"
  by (cases "mode opt") (auto simp: sendFunction_def sendOk_def enqueue_def case_prod_unfold Let_def)

lemma Get_absent: "map_of g (lexSoul lx) = None \<Longrightarrow> Get lx g f = None"
  by (simp add: Get_def)

lemma getWithCallback_unsatisfied:
  assumes G: "Get lx (graph w) (fast opts) = None" and S: "Store_get lx (store w) = None"
  shows "\<exists>q. getWithCallback E opt t lx cb opts w =
      (if sendOk opt w
       then w\<lparr>dup := dup_track t (random E (draws w)) (dup w), draws := Suc (draws w),
              queue := AList.update (random E (draws w)) cb (queue w),
              timers := timers w @ [(t + waitOf opts, GetTimeout (random E (draws w)) lx cb)],
              messageQueue := q\<rparr>
       else w\<lparr>dup := dup_track t (random E (draws w)) (dup w), draws := Suc (draws w),
              queue := AList.delete (random E (draws w)) (queue w),
              timers := timers w @ [(t + waitOf opts, GetTimeout (random E (draws w)) lx cb)],
              messageQueue := q,
              calls := calls w @ [(cb, emptyMessage\<lparr>err := Some (''Message queue exceeded maximum length ('' @ showNat (queueCap opt) @ '')'')\<rparr>)]\<rparr>)"
proof -
  define ident where "ident = random E (draws w)"
  define w2 where "w2 = w\<lparr>dup := dup_track t ident (dup w), draws := Suc (draws w),
              queue := AList.update ident cb (queue w),
              timers := timers w @ [(t + waitOf opts, GetTimeout ident lx cb)]\<rparr>"
  define request where
    "request = stringify E (emptyMessage\<lparr>msgId := Some ident, getLex := Some lx\<rparr>)"
  have 1: "getWithCallback E opt t lx cb opts w = handleResponse opt t request ident cb None None w2"
    using G S
    by (simp add: getWithCallback_def trackRandom_def Let_def ident_def w2_def request_def)
  obtain q where q: "snd (sendFunction opt t request w2) = w2\<lparr>messageQueue := q\<rparr>"
    using sendFunction_shape by blast
  have ok: "sendOk opt w2 = sendOk opt w" by (simp add: sendOk_def w2_def)
  have e: "fst (sendFunction opt t request w2) =
     (if sendOk opt w then None else Some (''Message queue exceeded maximum length ('' @ showNat (queueCap opt) @ '')''))"
    using sendFunction_err[of opt t request w2] ok by simp
  have "handleResponse opt t request ident cb None None w2 =
      (if sendOk opt w then w2\<lparr>messageQueue := q\<rparr>
       else (invoke cb (emptyMessage\<lparr>err := Some (''Message queue exceeded maximum length ('' @ showNat (queueCap opt) @ '')'')\<rparr>)
               (w2\<lparr>messageQueue := q\<rparr>))\<lparr>queue := AList.delete ident (queue w2)\<rparr>)"
    using q e by (simp add: handleResponse_def case_prod_unfold)
  then show ?thesis unfolding 1 ident_def[symmetric]
    by (intro exI[of _ q]) (simp add: w2_def invoke_def AList.delete_update_same)
qed

lemma getTimeout_pending:
  "map_of (queue x) ident = Some c \<Longrightarrow>
   getTimeout ident lx cb x = x\<lparr>calls := calls x @ [(cb, emptyMessage\<lparr>msgId := Some ident, putGraph := Some (nullGraph lx)\<rparr>)],
                                queue := AList.delete ident (queue x)\<rparr>"
  by (simp add: getTimeout_def truthyAt_def invoke_def)

lemma getTimeout_gone:
  "map_of (queue x) ident = None \<Longrightarrow> ident \<notin> set inheritedNames \<Longrightarrow>
   getTimeout ident lx cb x = x"
  by (simp add: getTimeout_def truthyAt_def)

lemma fireTimer_last:
  "timers x = ts @ [(due, tm)] \<Longrightarrow>
   fireTimer E opt ce t' (length ts) x =
     (if due \<le> t' then runTimer E opt ce t' tm (x\<lparr>timers := ts\<rparr>) else x)"
  by (simp add: fireTimer_def nth_append)


lemma api_get_unsatisfied:
  assumes G: "Get lx (graph w) (fast opts) = None" and S: "Store_get lx (store w) = None"
  shows "\<exists>q p. api_get E opt t lx cb opts w =
      (if sendOk opt w
       then w\<lparr>dup := dup_track t (random E (draws w)) (dup w), draws := Suc (draws w),
              queue := AList.update (random E (draws w)) cb (queue w),
              timers := timers w @ [(t + waitOf opts, GetTimeout (random E (draws w)) lx cb)],
              messageQueue := q, pendingReferences := p\<rparr>
       else w\<lparr>dup := dup_track t (random E (draws w)) (dup w), draws := Suc (draws w),
              queue := AList.delete (random E (draws w)) (queue w),
              timers := timers w @ [(t + waitOf opts, GetTimeout (random E (draws w)) lx cb)],
              messageQueue := q, pendingReferences := p,
              calls := calls w @ [(cb, emptyMessage\<lparr>err := Some (''Message queue exceeded maximum length ('' @ showNat (queueCap opt) @ '')'')\<rparr>)]\<rparr>)"
proof -
  define w0 where "w0 = (if lexSoul lx \<noteq> []
        then w\<lparr>pendingReferences := addReference (lexSoul lx) (pendingReferences w)\<rparr>
        else w)"
  have f: "graph w0 = graph w" "store w0 = store w" "draws w0 = draws w" "dup w0 = dup w"
    "queue w0 = queue w" "timers w0 = timers w" "calls w0 = calls w" "sendOk opt w0 = sendOk opt w"
    by (simp_all add: w0_def sendOk_def)
  have w0: "w0 = w\<lparr>pendingReferences := pendingReferences w0\<rparr>"
    by (simp add: w0_def)
  from getWithCallback_unsatisfied[of lx w0 opts E opt t cb] G S f
  obtain q where q: "getWithCallback E opt t lx cb opts w0 =
      (if sendOk opt w
       then w0\<lparr>dup := dup_track t (random E (draws w)) (dup w), draws := Suc (draws w),
              queue := AList.update (random E (draws w)) cb (queue w),
              timers := timers w @ [(t + waitOf opts, GetTimeout (random E (draws w)) lx cb)],
              messageQueue := q\<rparr>
       else w0\<lparr>dup := dup_track t (random E (draws w)) (dup w), draws := Suc (draws w),
              queue := AList.delete (random E (draws w)) (queue w),
              timers := timers w @ [(t + waitOf opts, GetTimeout (random E (draws w)) lx cb)],
              messageQueue := q,
              calls := calls w @ [(cb, emptyMessage\<lparr>err := Some (''Message queue exceeded maximum length ('' @ showNat (queueCap opt) @ '')'')\<rparr>)]\<rparr>)"
    by auto
  have "api_get E opt t lx cb opts w = getWithCallback E opt t lx cb opts w0"
    by (simp add: api_get_def w0_def)
  then show ?thesis unfolding q
    by (intro exI[of _ q] exI[of _ "pendingReferences w0"])
       (cases "lexSoul lx = []"; simp add: w0_def)
qed

lemma get_timeout_aux:
  assumes G: "Get lx (graph w) (fast opts) = None" and S: "Store_get lx (store w) = None"
    and I: "random E (draws w) \<notin> set inheritedNames"
  shows "let w' = api_get E opt t lx cb opts w;
             ident = random E (draws w);
             due = t + waitOf opts;
             i = length (timers w);
             reply = emptyMessage\<lparr>msgId := Some ident, putGraph := Some (nullGraph lx)\<rparr>;
             refusal = emptyMessage\<lparr>err := Some (''Message queue exceeded maximum length ('' @
                                                   showNat (queueCap opt) @ '')'')\<rparr>
         in timers w' = timers w @ [(due, GetTimeout ident lx cb)] \<and>
            (\<forall>t'. t' < due \<longrightarrow> fireTimer E opt ce t' i w' = w') \<and>
            (sendOk opt w \<longrightarrow>
               calls w' = calls w \<and> map_of (queue w') ident = Some cb \<and>
               (\<forall>t'. due \<le> t' \<longrightarrow>
                  calls (fireTimer E opt ce t' i w') = calls w @ [(cb, reply)] \<and>
                  map_of (queue (fireTimer E opt ce t' i w')) ident = None \<and>
                  timers (fireTimer E opt ce t' i w') = timers w)) \<and>
            (\<not> sendOk opt w \<longrightarrow>
               calls w' = calls w @ [(cb, refusal)] \<and>
               map_of (queue w') ident = None \<and>
               (\<forall>t'. calls (fireTimer E opt ce t' i w') = calls w')) \<and>
            (\<forall>x c. map_of (queue x) ident = Some c \<longrightarrow>
               getTimeout ident lx cb x
                 = x\<lparr>calls := calls x @ [(cb, reply)], queue := AList.delete ident (queue x)\<rparr>) \<and>
            (\<forall>x. map_of (queue x) ident = None \<longrightarrow> getTimeout ident lx cb x = x)"
proof -
  define ident where "ident = random E (draws w)"
  define w' where "w' = api_get E opt t lx cb opts w"
  define due where "due = t + waitOf opts"
  define refusal where "refusal = emptyMessage\<lparr>err := Some (''Message queue exceeded maximum length ('' @
                                                   showNat (queueCap opt) @ '')'')\<rparr>"
  have I': "ident \<notin> set inheritedNames" using I by (simp add: ident_def)
  from api_get_unsatisfied[OF G S, of E opt t cb] obtain q p where
    A: "w' = (if sendOk opt w
       then w\<lparr>dup := dup_track t ident (dup w), draws := Suc (draws w),
              queue := AList.update ident cb (queue w),
              timers := timers w @ [(due, GetTimeout ident lx cb)],
              messageQueue := q, pendingReferences := p\<rparr>
       else w\<lparr>dup := dup_track t ident (dup w), draws := Suc (draws w),
              queue := AList.delete ident (queue w),
              timers := timers w @ [(due, GetTimeout ident lx cb)],
              messageQueue := q, pendingReferences := p,
              calls := calls w @ [(cb, refusal)]\<rparr>)"
    unfolding w'_def ident_def due_def refusal_def by blast
  have T: "timers w' = timers w @ [(due, GetTimeout ident lx cb)]"
    by (simp add: A)
  have F: "fireTimer E opt ce t' (length (timers w)) w' =
     (if due \<le> t' then getTimeout ident lx cb (w'\<lparr>timers := timers w\<rparr>) else w')" for t'
    using fireTimer_last[OF T, of E opt ce t'] by (simp add: runTimer_def)
  have early: "\<forall>t'. t' < due \<longrightarrow> fireTimer E opt ce t' (length (timers w)) w' = w'"
    by (simp add: F)
  have ok: "calls w' = calls w \<and> map_of (queue w') ident = Some cb \<and>
               (\<forall>t'. due \<le> t' \<longrightarrow>
                  calls (fireTimer E opt ce t' (length (timers w)) w')
                    = calls w @ [(cb, emptyMessage\<lparr>msgId := Some ident, putGraph := Some (nullGraph lx)\<rparr>)] \<and>
                  map_of (queue (fireTimer E opt ce t' (length (timers w)) w')) ident = None \<and>
                  timers (fireTimer E opt ce t' (length (timers w)) w') = timers w)"
    if "sendOk opt w"
  proof -
    have q1: "map_of (queue (w'\<lparr>timers := timers w\<rparr>)) ident = Some cb"
      using that by (simp add: A AList.update_conv')
    show ?thesis
      using that getTimeout_pending[OF q1, of lx cb]
      by (simp add: F) (simp add: A AList.update_conv' AList.delete_conv')
  qed
  have bad: "calls w' = calls w @ [(cb, refusal)] \<and>
               map_of (queue w') ident = None \<and>
               (\<forall>t'. calls (fireTimer E opt ce t' (length (timers w)) w') = calls w')"
    if "\<not> sendOk opt w"
  proof -
    have q1: "map_of (queue (w'\<lparr>timers := timers w\<rparr>)) ident = None"
      using that by (simp add: A AList.delete_conv')
    show ?thesis
      using that getTimeout_gone[OF q1 I', of lx cb]
      by (simp add: F) (simp add: A AList.delete_conv')
  qed
  have gone: "\<forall>x. map_of (queue x) ident = None \<longrightarrow> getTimeout ident lx cb x = x"
    using getTimeout_gone[OF _ I'] by blast
  show ?thesis
    unfolding Let_def w'_def[symmetric] ident_def[symmetric] due_def[symmetric] refusal_def[symmetric]
    using T early ok bad getTimeout_pending[of _ ident _ lx cb] gone
    by blast
qed

lemma waitOf_cases:
  "waitOf opts = (case waitMs opts of Some ms \<Rightarrow> if ms = 0 then 100 else ms | None \<Rightarrow> 100)"
  by (simp add: waitOf_def)

lemma sendOk_cases:
  "sendOk opt w \<longleftrightarrow>
     mode opt = LocalOnly \<or>
     length (mqueue (messageQueue w))
       < (case maxQueueLength opt of Some n \<Rightarrow> if n = 0 then 1000 else n | None \<Rightarrow> 1000)"
  by (simp add: sendOk_def queueCap_def)

text \<open>
  Claim C2, as the code has it. A \<open>get\<close> that neither the graph nor the store
  satisfies sets one timer, due \<open>opts.wait\<close> ms later (100 ms when no wait or the wait
  0 is given), which does nothing before it is due. If the send function accepted the GET
  (there is no transport, or the outbound queue is shorter than
  \<open>options.maxQueueLength\<close>, which is 1000 when none or 0 is given), no callback has
  been called, the request id is pending in \<open>queue\<close>, and the timer calls the callback
  exactly once, with the null-valued subgraph of the lex, and removes the entry. If the
  send function returned an error, the callback has been called once with that error, the
  entry is gone, and the timer calls nothing. In whatever later state the timer fires:
  with the entry still pending it makes that one call and removes the entry, with the
  entry gone it changes nothing. The request id is one drawn by \<open>utils.text.random\<close>,
  which is no name that objects inherit.
\<close>

theorem get_timeout:
  assumes G: "Get lx (graph w) (fast opts) = None" and S: "Store_get lx (store w) = None"
    and I: "random E (draws w) \<notin> set inheritedNames"
  shows "let w' = api_get E opt t lx cb opts w;
             ident = random E (draws w);
             due = t + (case waitMs opts of Some ms \<Rightarrow> if ms = 0 then 100 else ms | None \<Rightarrow> 100);
             i = length (timers w);
             reply = emptyMessage\<lparr>msgId := Some ident, putGraph := Some (nullGraph lx)\<rparr>;
             cap = (case maxQueueLength opt of Some n \<Rightarrow> if n = 0 then 1000 else n | None \<Rightarrow> 1000);
             accepted = (mode opt = LocalOnly \<or> length (mqueue (messageQueue w)) < cap);
             refusal = emptyMessage\<lparr>err := Some (''Message queue exceeded maximum length ('' @
                                                   showNat cap @ '')'')\<rparr>
         in timers w' = timers w @ [(due, GetTimeout ident lx cb)] \<and>
            (\<forall>t'. t' < due \<longrightarrow> fireTimer E opt ce t' i w' = w') \<and>
            (accepted \<longrightarrow>
               calls w' = calls w \<and> map_of (queue w') ident = Some cb \<and>
               (\<forall>t'. due \<le> t' \<longrightarrow>
                  calls (fireTimer E opt ce t' i w') = calls w @ [(cb, reply)] \<and>
                  map_of (queue (fireTimer E opt ce t' i w')) ident = None \<and>
                  timers (fireTimer E opt ce t' i w') = timers w)) \<and>
            (\<not> accepted \<longrightarrow>
               calls w' = calls w @ [(cb, refusal)] \<and>
               map_of (queue w') ident = None \<and>
               (\<forall>t'. calls (fireTimer E opt ce t' i w') = calls w')) \<and>
            (\<forall>x c. map_of (queue x) ident = Some c \<longrightarrow>
               getTimeout ident lx cb x
                 = x\<lparr>calls := calls x @ [(cb, reply)], queue := AList.delete ident (queue x)\<rparr>) \<and>
            (\<forall>x. map_of (queue x) ident = None \<longrightarrow> getTimeout ident lx cb x = x)"
  using get_timeout_aux[OF G S I, where opt = opt and t = t and cb = cb and ce = ce]
  unfolding Let_def waitOf_cases sendOk_cases queueCap_def .

text \<open>
  Claim C10. Without transport, the send function returns no error and changes nothing.
  For a \<open>get\<close> whose soul has no data in the graph or the store, the call itself
  invokes no callback, the timer does nothing before \<open>opts.wait\<close> ms have passed
  (100 ms when no wait or the wait 0 is given), and from then on firing it leaves exactly
  one call of the callback, with the null-valued subgraph and no error. The request id is
  one drawn by \<open>utils.text.random\<close>, which is no name that objects inherit.
\<close>

theorem local_get_times_out:
  assumes L: "mode opt = LocalOnly"
    and G: "map_of (graph w) (lexSoul lx) = None" and S: "map_of (store w) (lexSoul lx) = None"
    and I: "random E (draws w) \<notin> set inheritedNames"
  shows "let w' = api_get E opt t lx cb opts w;
             ident = random E (draws w);
             due = t + (case waitMs opts of Some ms \<Rightarrow> if ms = 0 then 100 else ms | None \<Rightarrow> 100);
             i = length (timers w);
             reply = emptyMessage\<lparr>msgId := Some ident, putGraph := Some (nullGraph lx)\<rparr>
         in (\<forall>data x. sendFunction opt t data x = (None, x)) \<and>
            err reply = None \<and>
            calls w' = calls w \<and>
            (\<forall>t'. t' < due \<longrightarrow> fireTimer E opt ce t' i w' = w') \<and>
            (\<forall>t'. due \<le> t' \<longrightarrow> calls (fireTimer E opt ce t' i w') = calls w @ [(cb, reply)] \<and>
                                 map_of (queue (fireTimer E opt ce t' i w')) ident = None \<and>
                                 timers (fireTimer E opt ce t' i w') = timers w)"
proof -
  have G': "Get lx (graph w) (fast opts) = None" using G by (rule Get_absent)
  have S': "Store_get lx (store w) = None" using S by (simp add: Store_get_def Get_absent)
  have ok: "sendOk opt w" using L by (simp add: sendOk_def)
  have s: "\<forall>data x. sendFunction opt t data x = (None, x)"
    using L by (simp add: sendFunction_def)
  have e: "err (emptyMessage\<lparr>msgId := Some (random E (draws w)), putGraph := Some (nullGraph lx)\<rparr>) = None"
    by (simp add: emptyMessage_def)
  show ?thesis
    using get_timeout_aux[OF G' S' I, where opt = opt and t = t and cb = cb and ce = ce] ok s e unfolding Let_def waitOf_cases by blast
qed

lemma fresh_facts:
  "graph (WireTransport self) = []" "store (WireTransport self) = []"
  "calls (WireTransport self) = []" "timers (WireTransport self) = []"
  "draws (WireTransport self) = 0" "mqueue (messageQueue (WireTransport self)) = []"
  by (simp_all add: WireTransport_def createMessageQueue_def)

lemma demo_facts:
  "random demoEnv n = replicate (Suc n) CHR ''r''" "waitMs noOpts = None" "fast noOpts = False"
  "waitMs waitOpts = Some 250" "fast waitOpts = False"
  "mode serverOpts = ServerMode" "maxQueueLength serverOpts = Some 1" "mode localOpts = LocalOnly"
  by (simp_all add: demoEnv_def noOpts_def waitOpts_def serverOpts_def localOpts_def)

lemma demo_ids:
  "''r'' \<notin> set inheritedNames" "''rr'' \<notin> set inheritedNames" "''rrr'' \<notin> set inheritedNames"
  by (simp_all add: inheritedNames_def)

text \<open>
  A GET on a fresh wire in server mode with \<open>wait = 250\<close>: firing the timer at 249
  changes nothing, firing it at 250 calls the callback with the null-valued subgraph. With
  no wait given the timer is due at 100.
\<close>

theorem get_timeout_witness:
  "Get \<lparr>lexSoul = ''a'', lexDot = None\<rparr> (graph (WireTransport ''self'')) (fast waitOpts) = None \<and>
   Store_get \<lparr>lexSoul = ''a'', lexDot = None\<rparr> (store (WireTransport ''self'')) = None \<and>
   random demoEnv (draws (WireTransport ''self'')) \<notin> set inheritedNames \<and>
   (mode serverOpts = LocalOnly \<or> length (mqueue (messageQueue (WireTransport ''self''))) < 1) \<and>
   calls (fireTimer demoEnv serverOpts None 249 0
            (api_get demoEnv serverOpts 0 \<lparr>lexSoul = ''a'', lexDot = None\<rparr> 1 waitOpts
               (WireTransport ''self''))) = [] \<and>
   calls (fireTimer demoEnv serverOpts None 250 0
            (api_get demoEnv serverOpts 0 \<lparr>lexSoul = ''a'', lexDot = None\<rparr> 1 waitOpts
               (WireTransport ''self'')))
     = [(1, emptyMessage\<lparr>msgId := Some ''r'', putGraph := Some [(''a'', None)]\<rparr>)] \<and>
   calls (fireTimer demoEnv serverOpts None 99 0
            (api_get demoEnv serverOpts 0 \<lparr>lexSoul = ''a'', lexDot = None\<rparr> 1 noOpts
               (WireTransport ''self''))) = [] \<and>
   calls (fireTimer demoEnv serverOpts None 100 0
            (api_get demoEnv serverOpts 0 \<lparr>lexSoul = ''a'', lexDot = None\<rparr> 1 noOpts
               (WireTransport ''self'')))
     = [(1, emptyMessage\<lparr>msgId := Some ''r'', putGraph := Some [(''a'', None)]\<rparr>)]"
proof -
  have G: "Get \<lparr>lexSoul = ''a'', lexDot = None\<rparr> (graph (WireTransport ''self'')) (fast o') = None" for o'
    by (simp add: Get_def fresh_facts)
  have S: "Store_get \<lparr>lexSoul = ''a'', lexDot = None\<rparr> (store (WireTransport ''self'')) = None"
    by (simp add: Store_get_def Get_def fresh_facts)
  have I: "random demoEnv (draws (WireTransport ''self'')) \<notin> set inheritedNames"
    by (simp add: fresh_facts demo_facts demo_ids)
  have ok: "mode serverOpts = LocalOnly \<or> length (mqueue (messageQueue (WireTransport ''self''))) < 1"
    by (simp add: fresh_facts)
  have n: "nullGraph \<lparr>lexSoul = ''a'', lexDot = None\<rparr> = [(''a'', None)]"
    by (simp add: nullGraph_def)
  note a = get_timeout[OF G S I, where opt = serverOpts and t = 0 and cb = 1 and ce = None,
                       unfolded Let_def]
  have 1: "calls (fireTimer demoEnv serverOpts None 249 0
            (api_get demoEnv serverOpts 0 \<lparr>lexSoul = ''a'', lexDot = None\<rparr> 1 waitOpts
               (WireTransport ''self''))) = []"
    using a[of waitOpts] by (simp add: fresh_facts demo_facts)
  have 2: "calls (fireTimer demoEnv serverOpts None 250 0
            (api_get demoEnv serverOpts 0 \<lparr>lexSoul = ''a'', lexDot = None\<rparr> 1 waitOpts
               (WireTransport ''self'')))
     = [(1, emptyMessage\<lparr>msgId := Some ''r'', putGraph := Some [(''a'', None)]\<rparr>)]"
    using a[of waitOpts] by (simp add: fresh_facts demo_facts n)
  have 3: "calls (fireTimer demoEnv serverOpts None 99 0
            (api_get demoEnv serverOpts 0 \<lparr>lexSoul = ''a'', lexDot = None\<rparr> 1 noOpts
               (WireTransport ''self''))) = []"
    using a[of noOpts] by (simp add: fresh_facts demo_facts)
  have 4: "calls (fireTimer demoEnv serverOpts None 100 0
            (api_get demoEnv serverOpts 0 \<lparr>lexSoul = ''a'', lexDot = None\<rparr> 1 noOpts
               (WireTransport ''self'')))
     = [(1, emptyMessage\<lparr>msgId := Some ''r'', putGraph := Some [(''a'', None)]\<rparr>)]"
    using a[of noOpts] by (simp add: fresh_facts demo_facts n)
  show ?thesis using G[of waitOpts] S I ok 1 2 3 4 by simp
qed

text \<open>
  A GET on a fresh wire without transport, with \<open>wait = 250\<close> and with no wait given.
\<close>

theorem local_get_times_out_witness:
  "mode localOpts = LocalOnly \<and>
   map_of (graph (WireTransport ''self'')) ''a'' = None \<and>
   map_of (store (WireTransport ''self'')) ''a'' = None \<and>
   random demoEnv (draws (WireTransport ''self'')) \<notin> set inheritedNames \<and>
   calls (fireTimer demoEnv localOpts None 249 0
            (api_get demoEnv localOpts 0 \<lparr>lexSoul = ''a'', lexDot = Some (Exact ''f'')\<rparr> 1 waitOpts
               (WireTransport ''self''))) = [] \<and>
   calls (fireTimer demoEnv localOpts None 250 0
            (api_get demoEnv localOpts 0 \<lparr>lexSoul = ''a'', lexDot = Some (Exact ''f'')\<rparr> 1 waitOpts
               (WireTransport ''self'')))
     = [(1, emptyMessage\<lparr>msgId := Some ''r'',
                           putGraph := Some [(''a'', Some \<lparr>meta = None, props = [(''f'', VNull)]\<rparr>)]\<rparr>)] \<and>
   calls (fireTimer demoEnv localOpts None 99 0
            (api_get demoEnv localOpts 0 \<lparr>lexSoul = ''a'', lexDot = Some (Exact ''f'')\<rparr> 1 noOpts
               (WireTransport ''self''))) = [] \<and>
   calls (fireTimer demoEnv localOpts None 100 0
            (api_get demoEnv localOpts 0 \<lparr>lexSoul = ''a'', lexDot = Some (Exact ''f'')\<rparr> 1 noOpts
               (WireTransport ''self'')))
     = [(1, emptyMessage\<lparr>msgId := Some ''r'',
                           putGraph := Some [(''a'', Some \<lparr>meta = None, props = [(''f'', VNull)]\<rparr>)]\<rparr>)]"
proof -
  have L: "mode localOpts = LocalOnly" by (simp add: demo_facts)
  have G: "map_of (graph (WireTransport ''self'')) (lexSoul \<lparr>lexSoul = ''a'', lexDot = Some (Exact ''f'')\<rparr>) = None"
    by (simp add: fresh_facts)
  have S: "map_of (store (WireTransport ''self'')) (lexSoul \<lparr>lexSoul = ''a'', lexDot = Some (Exact ''f'')\<rparr>) = None"
    by (simp add: fresh_facts)
  have I: "random demoEnv (draws (WireTransport ''self'')) \<notin> set inheritedNames"
    by (simp add: fresh_facts demo_facts demo_ids)
  have n: "nullGraph \<lparr>lexSoul = ''a'', lexDot = Some (Exact ''f'')\<rparr>
           = [(''a'', Some \<lparr>meta = None, props = [(''f'', VNull)]\<rparr>)]"
    by (simp add: nullGraph_def)
  note a = local_get_times_out[OF L G S I, where t = 0 and cb = 1 and ce = None, unfolded Let_def]
  have 1: "calls (fireTimer demoEnv localOpts None 249 0
            (api_get demoEnv localOpts 0 \<lparr>lexSoul = ''a'', lexDot = Some (Exact ''f'')\<rparr> 1 waitOpts
               (WireTransport ''self''))) = []"
    using a[of waitOpts] by (simp add: fresh_facts demo_facts)
  have 2: "calls (fireTimer demoEnv localOpts None 250 0
            (api_get demoEnv localOpts 0 \<lparr>lexSoul = ''a'', lexDot = Some (Exact ''f'')\<rparr> 1 waitOpts
               (WireTransport ''self'')))
     = [(1, emptyMessage\<lparr>msgId := Some ''r'',
                           putGraph := Some [(''a'', Some \<lparr>meta = None, props = [(''f'', VNull)]\<rparr>)]\<rparr>)]"
    using a[of waitOpts] by (simp add: fresh_facts demo_facts n)
  have 3: "calls (fireTimer demoEnv localOpts None 99 0
            (api_get demoEnv localOpts 0 \<lparr>lexSoul = ''a'', lexDot = Some (Exact ''f'')\<rparr> 1 noOpts
               (WireTransport ''self''))) = []"
    using a[of noOpts] by (simp add: fresh_facts demo_facts)
  have 4: "calls (fireTimer demoEnv localOpts None 100 0
            (api_get demoEnv localOpts 0 \<lparr>lexSoul = ''a'', lexDot = Some (Exact ''f'')\<rparr> 1 noOpts
               (WireTransport ''self'')))
     = [(1, emptyMessage\<lparr>msgId := Some ''r'',
                           putGraph := Some [(''a'', Some \<lparr>meta = None, props = [(''f'', VNull)]\<rparr>)]\<rparr>)]"
    using a[of noOpts] by (simp add: fresh_facts demo_facts n)
  show ?thesis using L G S I 1 2 3 4 by simp
qed

lemma demoGets_facts:
  "graph demoGets = []" "store demoGets = []" "calls demoGets = []" "draws demoGets = 2"
  "length (timers demoGets) = 2" "mqueue (messageQueue demoGets) = [''rr'']"
  "listen demoGets = []"
  by (simp_all add: demoGets_def api_get_def getWithCallback_def Get_def Store_get_def
        trackRandom_def handleResponse_def sendFunction_def enqueue_def process_def
        processLoop_def invoke_def fresh_facts demo_facts WireTransport_def
        createMessageQueue_def demoEnv_def emptyMessage_def addReference_def Let_def
        serverOpts_def queueCap_def dup_track_def)

lemma showNat_1: "showNat 1 = ''1''" "showNat (Suc 0) = ''1''"
  by (subst showNat.simps, simp)+

text \<open>
  The claim C2 as stated fails when the outbound queue is full: after two GETs with
  \<open>maxQueueLength = 1\<close>, a third one is answered with the error of the send function,
  and its timeout adds no call.
\<close>

theorem get_send_error_counterexample:
  "Get \<lparr>lexSoul = ''c'', lexDot = Some (Exact ''f'')\<rparr> (graph demoGets) (fast noOpts) = None \<and>
   Store_get \<lparr>lexSoul = ''c'', lexDot = Some (Exact ''f'')\<rparr> (store demoGets) = None \<and>
   calls (api_get demoEnv serverOpts 2 \<lparr>lexSoul = ''c'', lexDot = Some (Exact ''f'')\<rparr> 3 noOpts demoGets)
     = [(3, emptyMessage\<lparr>err := Some ''Message queue exceeded maximum length (1)''\<rparr>)] \<and>
   calls (fireTimer demoEnv serverOpts None 102 2
            (api_get demoEnv serverOpts 2 \<lparr>lexSoul = ''c'', lexDot = Some (Exact ''f'')\<rparr> 3 noOpts demoGets))
     = [(3, emptyMessage\<lparr>err := Some ''Message queue exceeded maximum length (1)''\<rparr>)]"
proof -
  have G: "Get \<lparr>lexSoul = ''c'', lexDot = Some (Exact ''f'')\<rparr> (graph demoGets) (fast noOpts) = None"
    by (simp add: Get_def demoGets_facts)
  have S: "Store_get \<lparr>lexSoul = ''c'', lexDot = Some (Exact ''f'')\<rparr> (store demoGets) = None"
    by (simp add: Store_get_def Get_def demoGets_facts)
  have I: "random demoEnv (draws demoGets) \<notin> set inheritedNames"
    by (simp add: demoGets_facts demo_facts inheritedNames_def eval_nat_numeral)
  have bad: "\<not> sendOk serverOpts demoGets"
    by (simp add: sendOk_def queueCap_def demoGets_facts demo_facts)
  have c: "queueCap serverOpts = 1" by (simp add: queueCap_def demo_facts)
  from get_timeout_aux[OF G S I, where opt = serverOpts and t = 2 and cb = 3 and ce = None] bad
  show ?thesis unfolding Let_def using G S by (simp add: demoGets_facts c showNat_1)
qed

section \<open>Wire transport: messages\<close>

lemma removePeer_other:
  "k' \<noteq> k \<Longrightarrow> map_of (peerMap (removePeer H ft k)) k' = map_of (peerMap ft) k'"
  by (simp add: removePeer_def Let_def AList.delete_conv')

lemma disconnect_other_peer:
  "pubKey \<noteq> connId \<Longrightarrow>
   getPeer (fingerTable (onDisconnection E connId w)) pubKey = getPeer (fingerTable w) pubKey"
  by (simp add: onDisconnection_def getPeer_def removePeer_other)

lemma demo_bucket: "bucketIndex demoHash ''self'' ''peerA'' = 6"
  by code_simp

text \<open>
  Claim C5 on a concrete run in server mode: connection \<open>ws_1\<close> sends the HELLO of
  peer \<open>peerA\<close>, then disconnects. The disconnection handler removes the peer named by
  the connection id, so \<open>peerA\<close> is still in the finger table.
\<close>

theorem hello_peer_survives_disconnect:
  "getPeerIds (fingerTable (handleMessage demoEnv serverOpts None 5 ''hello'' ''ws_1''
                              (WireTransport ''self''))) = [''peerA''] \<and>
   getPeerIds (fingerTable (onDisconnection demoEnv ''ws_1''
                              (handleMessage demoEnv serverOpts None 5 ''hello'' ''ws_1''
                                 (WireTransport ''self'')))) = [''peerA'']"
proof -
  have r: "rateLimit 5 ''ws_1'' [] = (Proceed, [(''ws_1'', \<lparr>requests = [5], lastCleanup = 5, throttleCount = 0\<rparr>)])"
    by (simp add: rateLimit_def getDelay_def currentClient_def maxRequests_def Let_def)
  have a: "addPeer demoHash (FingerTable ''self'') \<lparr>peerId = ''peerA'', send = ''ws_1''\<rparr>
           = (True, \<lparr>selfId = ''self'',
                      buckets = [(6, [\<lparr>peerId = ''peerA'', send = ''ws_1''\<rparr>])],
                      peerMap = [(''peerA'', \<lparr>peerId = ''peerA'', send = ''ws_1''\<rparr>)]\<rparr>)"
    by (simp add: addPeer_def FingerTable_def demo_bucket Let_def K_BUCKET_SIZE_def)
  have h: "fingerTable (handleMessage demoEnv serverOpts None 5 ''hello'' ''ws_1'' (WireTransport ''self''))
           = \<lparr>selfId = ''self'',
                      buckets = [(6, [\<lparr>peerId = ''peerA'', send = ''ws_1''\<rparr>])],
                      peerMap = [(''peerA'', \<lparr>peerId = ''peerA'', send = ''ws_1''\<rparr>)]\<rparr>"
    by (simp add: handleMessage_def validateMessage_def maxSize_def WireTransport_def r
                  handleParsed_def helloBranch_def ackBranch_def demoEnv_def demoParse_def
                  emptyMessage_def dup_check_def dup_track_def a Let_def)
  show ?thesis
    by (simp add: h onDisconnection_def getPeerIds_def removePeer_def)
qed

lemma dup_check_seen: "map_of d i \<noteq> None \<Longrightarrow> fst (dup_check t i d)"
  by (simp add: dup_check_def)

text \<open>
  Claim C3. A message that parses but has no id, an empty id, or an id present in
  \<open>dup\<close> changes nothing but the time stamp of that id in \<open>dup\<close>: the handler
  after the rate limiter returns the state otherwise unchanged, and \<open>handleMessage\<close>
  as a whole changes, besides, only the rate limiter and possibly adds the timer that
  resumes this message after the sleep. Graph, queue, listen, pendingReferences, finger
  table, store, outbound queue and the log of callback calls stay as they are.
\<close>

theorem duplicate_dropped:
  assumes "parse E data = Some msg"
    and "msgId msg = None \<or> msgId msg = Some [] \<or>
         (\<exists>i. msgId msg = Some i \<and> map_of (dup w) i \<noteq> None)"
  shows "(\<exists>d. handleParsed E opt checkErr t data clientId w = w\<lparr>dup := d\<rparr>) \<and>
         (\<exists>d rl ts.
            handleMessage E opt checkErr t data clientId w
              = w\<lparr>dup := d, rateLimiter := rl, timers := timers w @ ts\<rparr> \<and>
            (ts = [] \<or> (\<exists>due. ts = [(due, Resume data clientId)])))"
proof -
  have P: "\<And>w :: wire. msgId msg = None \<or> msgId msg = Some [] \<or>
         (\<exists>i. msgId msg = Some i \<and> map_of (dup w) i \<noteq> None) \<Longrightarrow>
       \<exists>d. handleParsed E opt checkErr t data clientId w = w\<lparr>dup := d\<rparr>"
  proof -
    fix w :: wire
    assume h: "msgId msg = None \<or> msgId msg = Some [] \<or>
         (\<exists>i. msgId msg = Some i \<and> map_of (dup w) i \<noteq> None)"
    have "handleParsed E opt checkErr t data clientId w
         = w\<lparr>dup := (case msgId msg of None \<Rightarrow> dup w
                      | Some i \<Rightarrow> if i = [] then dup w else snd (dup_check t i (dup w)))\<rparr>"
      using assms(1) h
      by (auto simp: handleParsed_def dup_check_def Let_def split: option.splits)
    then show "\<exists>d. handleParsed E opt checkErr t data clientId w = w\<lparr>dup := d\<rparr>" by blast
  qed
  obtain verdict rl where v: "rateLimit t clientId (rateLimiter w) = (verdict, rl)"
    by (cases "rateLimit t clientId (rateLimiter w)")
  from P[of "w\<lparr>rateLimiter := rl\<rparr>"] assms(2) obtain d where
    2: "handleParsed E opt checkErr t data clientId (w\<lparr>rateLimiter := rl\<rparr>)
           = w\<lparr>rateLimiter := rl, dup := d\<rparr>"
    by auto
  have M: "\<exists>d rl ts.
            handleMessage E opt checkErr t data clientId w
              = w\<lparr>dup := d, rateLimiter := rl, timers := timers w @ ts\<rparr> \<and>
            (ts = [] \<or> (\<exists>due. ts = [(due, Resume data clientId)]))"
  proof (cases "validateMessage data")
    case False
    then have "handleMessage E opt checkErr t data clientId w
               = w\<lparr>dup := dup w, rateLimiter := rateLimiter w, timers := timers w @ []\<rparr>"
      by (simp add: handleMessage_def)
    then show ?thesis by blast
  next
    case True
    show ?thesis
    proof (cases verdict)
      case Proceed
      then have "handleMessage E opt checkErr t data clientId w
               = w\<lparr>dup := d, rateLimiter := rl, timers := timers w @ []\<rparr>"
        using True v 2 by (simp add: handleMessage_def)
      then show ?thesis by blast
    next
      case (Sleep delay)
      then have "handleMessage E opt checkErr t data clientId w
               = w\<lparr>dup := dup w, rateLimiter := rl,
                    timers := timers w @ [(t + delay, Resume data clientId)]\<rparr>"
        using True v by (simp add: handleMessage_def)
      then show ?thesis by blast
    next
      case Disconnecting
      then have "handleMessage E opt checkErr t data clientId w
               = w\<lparr>dup := dup w, rateLimiter := rl, timers := timers w @ []\<rparr>"
        using True v by (simp add: handleMessage_def)
      then show ?thesis by blast
    qed
  qed
  show ?thesis using P[OF assms(2)] M by blast
qed


theorem duplicate_dropped_witness:
  "parse demoEnv ''hello'' = Some (emptyMessage\<lparr>msgId := Some ''m1'', helloPub := Some ''peerA''\<rparr>) \<and>
   map_of (dup ((WireTransport ''self'')\<lparr>dup := [(''m1'', 1)]\<rparr>)) ''m1'' \<noteq> None \<and>
   (\<exists>d. handleParsed demoEnv serverOpts None 5 ''hello'' ''ws_1''
           ((WireTransport ''self'')\<lparr>dup := [(''m1'', 1)]\<rparr>)
         = (WireTransport ''self'')\<lparr>dup := d\<rparr>)"
proof -
  have p: "parse demoEnv ''hello'' = Some (emptyMessage\<lparr>msgId := Some ''m1'', helloPub := Some ''peerA''\<rparr>)"
    by (simp add: demoEnv_def demoParse_def)
  have d: "msgId (emptyMessage\<lparr>msgId := Some ''m1'', helloPub := Some ''peerA''\<rparr>) = None \<or>
           msgId (emptyMessage\<lparr>msgId := Some ''m1'', helloPub := Some ''peerA''\<rparr>) = Some [] \<or>
           (\<exists>i. msgId (emptyMessage\<lparr>msgId := Some ''m1'', helloPub := Some ''peerA''\<rparr>) = Some i \<and>
                map_of (dup ((WireTransport ''self'')\<lparr>dup := [(''m1'', 1)]\<rparr>)) i \<noteq> None)"
    by simp
  from duplicate_dropped[OF p d, of serverOpts None 5 "''ws_1''"] p show ?thesis
    by simp
qed


subsection \<open>Which souls a merge and a store write touch\<close>














subsection \<open>The effect of the handlers on store and timers\<close>

lemma sendFunction_frame:
  "store (snd (sendFunction opt t data w)) = store w"
  "storePuts (snd (sendFunction opt t data w)) = storePuts w"
  "timers (snd (sendFunction opt t data w)) = timers w"
  "graph (snd (sendFunction opt t data w)) = graph w"
  "listen (snd (sendFunction opt t data w)) = listen w"
  "pendingReferences (snd (sendFunction opt t data w)) = pendingReferences w"
  by (cases "mode opt"; simp add: sendFunction_def case_prod_unfold Let_def)+

lemma fold_invoke_frame:
  "store (fold (\<lambda>cb. invoke cb m) cbs w) = store w"
  "storePuts (fold (\<lambda>cb. invoke cb m) cbs w) = storePuts w"
  "timers (fold (\<lambda>cb. invoke cb m) cbs w) = timers w"
  by (induction cbs arbitrary: w; simp add: invoke_def)+

text \<open>What \<open>handlePut\<close> does to store, write log and timers, in terms of the merge.\<close>

lemma handlePut_effect:
  "let u = fst (mix E t p (graph w) (secure opt) (listen w));
       written = (now_u u \<noteq> [] \<and> checkErr = None);
       retried = (defer_u u \<noteq> [] \<and> (now_u u = [] \<or> checkErr = None));
       at = (if now_u u = [] then t else t + int (checkTakes E t));
       w' = handlePut E opt checkErr t p ident w
   in store w' = (if written then Store_put (now_u u) (store w) else store w) \<and>
      storePuts w' = (if written then storePuts w @ [now_u u] else storePuts w) \<and>
      timers w' = (if retried
                   then timers w @ [(at + wait_u u,
                                     RePut (map (\<lambda>(soul, n). (soul, Some n)) (defer_u u)) ident)]
                   else timers w)"
  by (simp add: handlePut_def Let_def case_prod_unfold trackRandom_def sendFunction_frame
                fold_invoke_frame)







text \<open>A soul named like something every object inherits passes both passes of the filter.\<close>

lemma inherited_wanted: "soul \<in> set inheritedNames \<Longrightarrow> wanted w refs soul"
  by (simp add: wanted_def hasSoul_def truthyAt_def)




















subsection \<open>Souls named like inherited properties\<close>

text \<open>
  On a fresh wire, which knows no soul at all, the PUT of a node of soul \<open>constructor\<close>
  with a relation to \<open>t\<close> and of a node of soul \<open>t\<close> is written whole: the read
  \<open>graph["constructor"]\<close> finds the inherited property, the first pass takes the
  relation target, and both souls pass the filter.
\<close>

lemma inherited_soul_stored:
  "storePuts (putBranch demoEnv serverOpts None 100 inheritedPut ''m4'' (WireTransport ''self''))
   = [[(''constructor'', \<lparr>meta = Some \<lparr>metaSoul = ''constructor'', states = [(''x'', 1)], bare = False\<rparr>,
                           props = [(''x'', VRel ''t'')]\<rparr>),
       (''t'', \<lparr>meta = Some \<lparr>metaSoul = ''t'', states = [(''a'', 1)], bare = False\<rparr>,
                 props = [(''a'', VStr ''z'')]\<rparr>)]]"
proof -
  define W where "W = WireTransport ''self''"
  have f: "graph W = []" "listen W = []" "pendingReferences W = []" "storePuts W = []" "store W = []"
    by (simp_all add: W_def WireTransport_def)
  have c: "wanted W refs ''constructor''" for refs
    by (rule inherited_wanted) (simp add: inheritedNames_def)
  have nt: "\<not> wanted W [] ''t''"
    by (simp add: wanted_def hasSoul_def truthyAt_def inheritedNames_def f Store_get_def Get_def)
  have wt: "wanted W [''t''] ''t''" by (simp add: wanted_def)
  have e: "fold (extractReferences W) inheritedPut (pendingReferences W) = [''t'']"
    using c[of "[]"] wt
    by (simp add: inheritedPut_def extractReferences_def nodeValues_def addReference_def f)
  have fl: "fold (filterSoul W) inheritedPut ([], [''t'']) = (inheritedPut, [])"
    using c[of "[''t'']"] wt by (simp add: inheritedPut_def filterSoul_def)
  have pb: "putBranch demoEnv serverOpts None 100 inheritedPut ''m4'' W
            = handlePut demoEnv serverOpts None 100 inheritedPut ''m4'' (W\<lparr>pendingReferences := []\<rparr>)"
    unfolding putBranch_def Let_def e fl by (simp add: inheritedPut_def)
  have m: "now_u (fst (mix demoEnv 100 inheritedPut [] (secure serverOpts) []))
      = [(''constructor'', \<lparr>meta = Some \<lparr>metaSoul = ''constructor'', states = [(''x'', 1)], bare = False\<rparr>,
                           props = [(''x'', VRel ''t'')]\<rparr>),
         (''t'', \<lparr>meta = Some \<lparr>metaSoul = ''t'', states = [(''a'', 1)], bare = False\<rparr>,
                 props = [(''a'', VStr ''z'')]\<rparr>)]"
    by (simp add: mix_def mixNode_def mixField_def inheritedPut_def demoEnv_def HAM_def writeField_def
                  evict_def MAX_GRAPH_SIZE_def dayMs_def listening_def Let_def f serverOpts_def)
  show ?thesis
    unfolding W_def[symmetric] pb
    using handlePut_effect[of demoEnv 100 inheritedPut "W\<lparr>pendingReferences := []\<rparr>"
                              serverOpts None "''m4''"]
    unfolding Let_def by (simp add: m f)
qed

text \<open>A bare metadata object of a wanted node is taken for a relation by the first pass.\<close>

lemma bare_meta_harvested:
  "wanted w refs s \<Longrightarrow>
   extractReferences w (s, Some \<lparr>meta = Some \<lparr>metaSoul = ''t'', states = [], bare = True\<rparr>, props = []\<rparr>) refs
   = addReference ''t'' refs"
  by (simp add: extractReferences_def nodeValues_def)

text \<open>The soul \<open>__proto__\<close> passes the test, and the assignment keeps no entry for it.\<close>

lemma proto_not_kept:
  "filterSoul w (''__proto__'', n) (acc, refs) = (acc, removeAll ''__proto__'' refs)"
  using inherited_wanted[of "''__proto__''" w refs]
  by (simp add: filterSoul_def inheritedNames_def)

text \<open>
  An ACK that names an inherited function finds no callback of the wire; what the branch
  still does is its final \<open>delete\<close>.
\<close>

lemma ack_inherited:
  "map_of (queue w) ''toString'' = None \<Longrightarrow>
   ackBranch (emptyMessage\<lparr>msgId := Some i, ackOf := Some ''toString''\<rparr>) w
   = w\<lparr>queue := AList.delete ''undefined'' (queue w)\<rparr>"
  by (simp add: ackBranch_def emptyMessage_def inheritedNames_def)

section \<open>Wire transport: deferred fields\<close>












subsection \<open>One merge step\<close>








subsection \<open>The fate of one field in a merge\<close>


subsection \<open>The delay kept in the result of a merge\<close>




subsection \<open>The merge of a change\<close>




subsection \<open>The merge of a deferred update\<close>

















end
